theory Spec2Isabelle
  imports
    Complex_Main
    "HOL-Library.Char_ord"
    "HOL-Library.List_Lexorder"
    "HOL-Library.Product_Lexorder"
    "HOL-Library.Multiset"
begin

section \<open>Ranking engine (backend/app/ranking.py)\<close>

text \<open>
  The ranking functions take rows (Python dicts) and return them sorted and annotated
  with a rank. A row is a record whose optional fields are the keys the function reads
  with \<^verbatim>\<open>dict.get\<close>: \<open>None\<close> is a key that is absent or holds Python's
  \<^verbatim>\<open>None\<close>. The annotated row is the pair of the row and its rank.
  Python's \<^verbatim>\<open>sorted\<close> is stable, like \<^const>\<open>sort_key\<close>; tuples and
  strings compare lexicographically, as the product and list orders used here.
\<close>

definition add_ranks :: "'a list \<Rightarrow> ('a \<times> nat) list" where
  \<comment> \<open>\<^verbatim>\<open>for i, x in enumerate(xs): x['rank'] = i + 1\<close>\<close>
  "add_ranks xs = map (\<lambda>(i, x). (x, i + 1)) (enumerate 0 xs)"

subsection \<open>rank_compute_instances\<close>

record compute_instance =
  price_monthly :: "real option"
  gpu_memory_gb :: "int option"
  vram_gb :: "int option"
  gpu_count :: "int option"
  provider :: string
  inst_name :: string

definition price_or_sentinel :: "compute_instance \<Rightarrow> real" where
  \<comment> \<open>\<^verbatim>\<open>inst.get('price_monthly') or 999999\<close>: \<^verbatim>\<open>None\<close> and \<open>0\<close> are both falsy\<close>
  "price_or_sentinel i =
     (case price_monthly i of None \<Rightarrow> 999999 | Some p \<Rightarrow> if p = 0 then 999999 else p)"

definition int_or_zero :: "int option \<Rightarrow> int" where
  \<comment> \<open>\<^verbatim>\<open>x or 0\<close>\<close>
  "int_or_zero x = (case x of None \<Rightarrow> 0 | Some v \<Rightarrow> v)"

definition compute_sort_key :: "compute_instance \<Rightarrow> real \<times> int \<times> int \<times> string \<times> string" where
  "compute_sort_key i =
     (price_or_sentinel i,
      - int_or_zero (gpu_memory_gb i),
      - int_or_zero (gpu_count i),
      provider i,
      inst_name i)"

definition rank_compute_instances :: "compute_instance list \<Rightarrow> (compute_instance \<times> nat) list" where
  "rank_compute_instances instances = add_ranks (sort_key compute_sort_key instances)"

text \<open>
  The order of the claim, written on the fields of the rows: price ascending, where a
  price that is missing or 0 counts as 999999, then GPU memory descending, then GPU count
  descending (a missing number counting as 0), then provider, then name.
\<close>

definition compute_before_eq :: "compute_instance \<Rightarrow> compute_instance \<Rightarrow> bool" where
  "compute_before_eq a b \<longleftrightarrow>
     (let pa = (case price_monthly a of None \<Rightarrow> 999999 | Some p \<Rightarrow> if p = 0 then 999999 else p);
          pb = (case price_monthly b of None \<Rightarrow> 999999 | Some p \<Rightarrow> if p = 0 then 999999 else p);
          va = (case gpu_memory_gb a of None \<Rightarrow> 0 | Some v \<Rightarrow> v);
          vb = (case gpu_memory_gb b of None \<Rightarrow> 0 | Some v \<Rightarrow> v);
          ga = (case gpu_count a of None \<Rightarrow> 0 | Some g \<Rightarrow> g);
          gb = (case gpu_count b of None \<Rightarrow> 0 | Some g \<Rightarrow> g)
      in pa < pb \<or>
         pa = pb \<and>
         (vb < va \<or>
          va = vb \<and>
          (gb < ga \<or>
           ga = gb \<and>
           (provider a < provider b \<or>
            provider a = provider b \<and> inst_name a \<le> inst_name b))))"

definition query_row :: "real \<Rightarrow> int \<Rightarrow> int \<Rightarrow> string \<Rightarrow> string \<Rightarrow> compute_instance" where
  \<comment> \<open>a row as \<^verbatim>\<open>search_compute_instances\<close> passes it: the query selects the GPU memory
     \<^verbatim>\<open>as vram_gb\<close>, so the row has no key \<^verbatim>\<open>gpu_memory_gb\<close>\<close>
  "query_row price vram gpus prov nm =
     \<lparr>price_monthly = Some price, gpu_memory_gb = None, vram_gb = Some vram,
      gpu_count = Some gpus, provider = prov, inst_name = nm\<rparr>"

definition inst_free :: compute_instance where
  "inst_free = \<lparr>price_monthly = Some 0, gpu_memory_gb = Some 24, vram_gb = None,
                 gpu_count = Some 1, provider = ''aws'', inst_name = ''free''\<rparr>"

definition inst_paid :: compute_instance where
  "inst_paid = \<lparr>price_monthly = Some 100, gpu_memory_gb = Some 24, vram_gb = None,
                 gpu_count = Some 1, provider = ''aws'', inst_name = ''paid''\<rparr>"

definition inst_b :: compute_instance where
  "inst_b = \<lparr>price_monthly = Some 100, gpu_memory_gb = Some 40, vram_gb = None,
              gpu_count = Some 2, provider = ''aws'', inst_name = ''b''\<rparr>"

definition inst_a :: compute_instance where
  "inst_a = \<lparr>price_monthly = Some 100, gpu_memory_gb = Some 80, vram_gb = None,
              gpu_count = Some 1, provider = ''aws'', inst_name = ''a''\<rparr>"

subsection \<open>Python string operations\<close>

text \<open>
  A Python string is modelled as a \<^typ>\<open>string\<close> whose characters are the code points
  0 to 255; the operations below are Python's on that range.
\<close>

definition isspace :: "char \<Rightarrow> bool" where
  \<comment> \<open>\<^verbatim>\<open>str.isspace\<close>, also the class \<^verbatim>\<open>\s\<close> of \<^verbatim>\<open>re\<close>\<close>
  "isspace c \<longleftrightarrow>
     (let n = (of_char c :: nat)
      in (9 \<le> n \<and> n \<le> 13) \<or> (28 \<le> n \<and> n \<le> 32) \<or> n = 133 \<or> n = 160)"

definition lower_char :: "char \<Rightarrow> char" where
  "lower_char c =
     (let n = (of_char c :: nat)
      in if (65 \<le> n \<and> n \<le> 90) \<or> (192 \<le> n \<and> n \<le> 214) \<or> (216 \<le> n \<and> n \<le> 222)
         then char_of (n + 32) else c)"

definition lower :: "string \<Rightarrow> string" where
  "lower s = map lower_char s"

definition lstrip :: "string \<Rightarrow> string" where
  "lstrip s = dropWhile isspace s"

definition rstrip :: "string \<Rightarrow> string" where
  "rstrip s = rev (dropWhile isspace (rev s))"

definition strip :: "string \<Rightarrow> string" where
  "strip s = rstrip (lstrip s)"

fun startswith :: "string \<Rightarrow> string \<Rightarrow> bool" where
  "startswith s [] = True"
| "startswith [] (p # ps) = False"
| "startswith (c # cs) (p # ps) = (c = p \<and> startswith cs ps)"

fun contains :: "string \<Rightarrow> string \<Rightarrow> bool" where
  \<comment> \<open>\<^verbatim>\<open>sub in s\<close>\<close>
  "contains [] sub = (sub = [])"
| "contains (c # cs) sub = (startswith (c # cs) sub \<or> contains cs sub)"

definition str_or_empty :: "string option \<Rightarrow> string" where
  \<comment> \<open>\<^verbatim>\<open>x or ''\<close>\<close>
  "str_or_empty x = (case x of None \<Rightarrow> [] | Some v \<Rightarrow> v)"

subsection \<open>rank_k8s_packages\<close>
















section \<open>Index builder (scripts/build_hf_rag_index.py)\<close>

subsection \<open>Tables\<close>

text \<open>
  A table is the list of its rows. A column that SQL compares with \<^verbatim>\<open>=\<close> or
  \<^verbatim>\<open><\<close> is optional where it may be NULL: a comparison with NULL is not true, so the
  row is not selected. Text columns are ordered as Python strings are (by code point).
  A row of \<^verbatim>\<open>hf.models\<close> holds the model id and the download and like counts.
\<close>

record hf_model =
  model_id :: string
  downloads :: "nat option"
  likes :: "nat option"


record model_card =
  mc_model_id :: string
  card_text :: "string option"
  card_hash :: string
  token_count :: "int option"
  excluded_from_rag :: "bool option"
  exclusion_reason :: "string option"

definition sql_update :: "('r \<Rightarrow> bool) \<Rightarrow> ('r \<Rightarrow> 'r) \<Rightarrow> 'r list \<Rightarrow> 'r list \<times> nat" where
  \<comment> \<open>\<^verbatim>\<open>UPDATE t SET ... WHERE ...\<close> and the cursor's \<^verbatim>\<open>rowcount\<close>\<close>
  "sql_update cond upd rows =
     (map (\<lambda>r. if cond r then upd r else r) rows, length (filter cond rows))"

subsection \<open>apply_exclusion_rules\<close>

definition exclude :: "string \<Rightarrow> model_card \<Rightarrow> model_card" where
  \<comment> \<open>\<^verbatim>\<open>SET excluded_from_rag = TRUE, exclusion_reason = ...\<close>\<close>
  "exclude reason r = r\<lparr>excluded_from_rag := Some True, exclusion_reason := Some reason\<rparr>"

definition rule1_cond :: "model_card \<Rightarrow> bool" where
  "rule1_cond r \<longleftrightarrow>
     card_text r = Some ''No model card found.'' \<and> excluded_from_rag r = Some False"

definition rule2_cond :: "model_card \<Rightarrow> bool" where
  "rule2_cond r \<longleftrightarrow>
     (case token_count r of None \<Rightarrow> False | Some n \<Rightarrow> n < 50) \<and> excluded_from_rag r = Some False"

definition rule3_cond :: "model_card \<Rightarrow> bool" where
  "rule3_cond r \<longleftrightarrow>
     (case token_count r of None \<Rightarrow> False | Some n \<Rightarrow> n > 100000)
     \<and> excluded_from_rag r = Some False"

definition exclusion_rule1 :: "model_card list \<Rightarrow> model_card list \<times> nat" where
  "exclusion_rule1 = sql_update rule1_cond (exclude ''No content'')"

definition exclusion_rule2 :: "model_card list \<Rightarrow> model_card list \<times> nat" where
  "exclusion_rule2 = sql_update rule2_cond (exclude ''Too short (<50 tokens)'')"

definition exclusion_rule3 :: "model_card list \<Rightarrow> model_card list \<times> nat" where
  "exclusion_rule3 = sql_update rule3_cond (exclude ''Too long (>100k tokens, likely non-textual)'')"

record exclusion_stats =
  excluded_no_content :: nat
  excluded_too_short :: nat
  excluded_too_long :: nat
  total_excluded :: nat

definition apply_exclusion_rules :: "model_card list \<Rightarrow> model_card list \<times> exclusion_stats" where
  "apply_exclusion_rules cards =
     (let (cards1, rule1_count) = exclusion_rule1 cards;
          (cards2, rule2_count) = exclusion_rule2 cards1;
          (cards3, rule3_count) = exclusion_rule3 cards2
      in (cards3,
          \<lparr>excluded_no_content = rule1_count,
           excluded_too_short = rule2_count,
           excluded_too_long = rule3_count,
           total_excluded = rule1_count + rule2_count + rule3_count\<rparr>))"

definition card_lowercase_sentinel :: model_card where
  "card_lowercase_sentinel =
     \<lparr>mc_model_id = ''org/m1'', card_text = Some ''no content found'', card_hash = ''h1'',
      token_count = Some 100, excluded_from_rag = Some False, exclusion_reason = None\<rparr>"

definition card_no_model_card :: model_card where
  "card_no_model_card =
     \<lparr>mc_model_id = ''org/m2'', card_text = Some ''No model card found.'', card_hash = ''h2'',
      token_count = Some 5, excluded_from_rag = Some False, exclusion_reason = None\<rparr>"

subsection \<open>build_canonical_mapping\<close>

datatype py_error = IndexError | ValueError | APIError | DatabaseError

















subsection \<open>Tokenizer, hash and configuration\<close>

text \<open>
  The tokenizer (tiktoken) and SHA-256 are outside the repository: the builder holds them as
  functions. \<^verbatim>\<open>encode\<close> may raise; \<^verbatim>\<open>decode\<close> does not. The configuration
  values are the integers that \<^verbatim>\<open>main\<close> reads from the environment.
\<close>

record encoder =
  encode :: "string \<Rightarrow> py_error + nat list"
  decode :: "nat list \<Rightarrow> string"

record config =
  embed_model :: string
  chunker_version :: string
  chunk_target :: int
  chunk_overlap :: int

record builder =
  config :: config
  encoder :: encoder
  sha256_hexdigest :: "string \<Rightarrow> string"

definition default_config :: config where
  \<comment> \<open>the defaults of \<^verbatim>\<open>main\<close>\<close>
  "default_config =
     \<lparr>embed_model = ''text-embedding-3-small'', chunker_version = ''hf_chunker_v1'',
      chunk_target = 900, chunk_overlap = 120\<rparr>"

fun split_words :: "string \<Rightarrow> string \<Rightarrow> string list" where
  \<comment> \<open>\<^verbatim>\<open>text.split()\<close>, with the word read so far\<close>
  "split_words cur [] = (if cur = [] then [] else [cur])"
| "split_words cur (c # cs) =
     (if isspace c then (if cur = [] then split_words [] cs else cur # split_words [] cs)
      else split_words (cur @ [c]) cs)"

definition count_tokens :: "builder \<Rightarrow> string \<Rightarrow> int" where
  "count_tokens self text =
     (case encode (encoder self) text of
        Inr tokens \<Rightarrow> int (length tokens)
      | Inl _ \<Rightarrow> int (length (split_words [] text)))"

definition compute_hash :: "builder \<Rightarrow> string \<Rightarrow> string" where
  "compute_hash self text = sha256_hexdigest self text"

definition py_slice :: "'a list \<Rightarrow> int \<Rightarrow> int \<Rightarrow> 'a list" where
  \<comment> \<open>\<^verbatim>\<open>xs[start:stop]\<close>: a negative index counts from the end, and both are clamped\<close>
  "py_slice xs start stop =
     (let n = int (length xs);
          lo = (if start < 0 then max 0 (n + start) else min start n);
          hi = (if stop < 0 then max 0 (n + stop) else min stop n)
      in take (nat (hi - lo)) (drop (nat lo) xs))"

subsection \<open>normalize_text\<close>

definition LF :: char where "LF = CHR 0x0A"

definition CR :: char where "CR = CHR 0x0D"

fun replace_crlf :: "string \<Rightarrow> string" where
  \<comment> \<open>\<^verbatim>\<open>text.replace('\r\n', '\n')\<close>\<close>
  "replace_crlf (c # d # cs) =
     (if c = CR \<and> d = LF then LF # replace_crlf cs else c # replace_crlf (d # cs))"
| "replace_crlf cs = cs"

fun split_on :: "char \<Rightarrow> string \<Rightarrow> string \<Rightarrow> string list" where
  \<comment> \<open>\<^verbatim>\<open>text.split(sep)\<close> for a one-character separator, with the piece read so far\<close>
  "split_on sep cur [] = [cur]"
| "split_on sep cur (c # cs) =
     (if c = sep then cur # split_on sep [] cs else split_on sep (cur @ [c]) cs)"

definition split_lines :: "string \<Rightarrow> string list" where
  \<comment> \<open>\<^verbatim>\<open>text.split('\n')\<close>\<close>
  "split_lines text = split_on LF [] text"

fun join :: "string \<Rightarrow> string list \<Rightarrow> string" where
  \<comment> \<open>\<^verbatim>\<open>sep.join(parts)\<close>\<close>
  "join sep [] = []"
| "join sep [x] = x"
| "join sep (x # y # ys) = x @ sep @ join sep (y # ys)"

fun collapse_blank :: "nat \<Rightarrow> string list \<Rightarrow> string list" where
  \<comment> \<open>the loop over the lines, with \<^verbatim>\<open>blank_count\<close>\<close>
  "collapse_blank blank_count [] = []"
| "collapse_blank blank_count (line # lines) =
     (if line = [] then
        (if blank_count + 1 \<le> 2 then line # collapse_blank (blank_count + 1) lines
         else collapse_blank (blank_count + 1) lines)
      else line # collapse_blank 0 lines)"

definition normalize_text :: "string \<Rightarrow> string" where
  "normalize_text text =
     (let text1 = map (\<lambda>c. if c = CR then LF else c) (replace_crlf text);
          lines = map rstrip (split_lines text1)
      in join [LF] (collapse_blank 0 lines))"

subsection \<open>extract_key_sections\<close>

record card_section =
  heading :: "string option"
  content :: string
  is_key :: bool

definition key_keywords :: "string list" where
  "key_keywords = [''description'', ''overview'', ''intended use'', ''how to use'',
               ''usage'', ''limitations'', ''license'']"

definition heading_match :: "string \<Rightarrow> string option" where
  \<comment> \<open>\<^verbatim>\<open>re.match(r'^(#{1,4})\s+(.+)$', line)\<close> on a line without a newline: the second
     group, when the line matches. When only white space follows the marker, the greedy
     \<^verbatim>\<open>\s+\<close> gives its last character back to \<^verbatim>\<open>.+\<close>.\<close>
  "heading_match line =
     (let k = length (takeWhile (\<lambda>c. c = CHR ''#'') line);
          rest = dropWhile (\<lambda>c. c = CHR ''#'') line;
          spaces = takeWhile isspace rest;
          title = dropWhile isspace rest
      in if 1 \<le> k \<and> k \<le> 4 \<and> spaces \<noteq> [] then
           (if title \<noteq> [] then Some title
            else if 2 \<le> length spaces then Some [last spaces]
            else None)
         else None)"

definition heading_is_key :: "string option \<Rightarrow> bool" where
  \<comment> \<open>\<^verbatim>\<open>any(kw in (current_heading or '').lower() for kw in keywords)\<close>\<close>
  "heading_is_key h = list_ex (\<lambda>kw. contains (lower (str_or_empty h)) kw) key_keywords"

definition make_section :: "string option \<Rightarrow> string list \<Rightarrow> card_section" where
  "make_section h current_section =
     \<lparr>heading = h, content = join [LF] current_section, is_key = heading_is_key h\<rparr>"

definition section_step ::
  "card_section list \<times> string list \<times> string option \<Rightarrow> string \<Rightarrow> card_section list \<times> string list \<times> string option" where
  \<comment> \<open>one line of the loop that splits by headings\<close>
  "section_step st line =
     (case st of (sections, current_section, current_heading) \<Rightarrow>
        (case heading_match line of
           Some title \<Rightarrow>
             ((if current_section \<noteq> [] then sections @ [make_section current_heading current_section]
               else sections),
              [line], Some title)
         | None \<Rightarrow> (sections, current_section @ [line], current_heading)))"

definition split_sections :: "string \<Rightarrow> card_section list" where
  "split_sections text =
     (case foldl section_step ([], [], None) (split_lines text) of
        (sections, current_section, current_heading) \<Rightarrow>
          if current_section \<noteq> [] then
            sections @ [\<lparr>heading = current_heading, content = join [LF] current_section,
                         is_key = (if current_heading \<noteq> None then heading_is_key current_heading
                                   else False)\<rparr>]
          else sections)"

fun add_sections :: "builder \<Rightarrow> int \<Rightarrow> card_section list \<Rightarrow> string list \<times> int \<Rightarrow> string list \<times> int" where
  \<comment> \<open>one of the two greedy loops, on \<^verbatim>\<open>(extracted, total_tokens)\<close>; the second
     equation's \<^verbatim>\<open>else\<close> is the loop's \<^verbatim>\<open>break\<close>\<close>
  "add_sections self max_tokens [] st = st"
| "add_sections self max_tokens (s # rest) (extracted, total_tokens) =
     (let section_tokens = count_tokens self (content s)
      in if total_tokens + section_tokens \<le> max_tokens
         then add_sections self max_tokens rest (extracted @ [content s], total_tokens + section_tokens)
         else (extracted, total_tokens))"

definition truncate_to :: "builder \<Rightarrow> string \<Rightarrow> int \<Rightarrow> py_error + string" where
  \<comment> \<open>\<^verbatim>\<open>tokens = encode(text); if len(tokens) > max_tokens: tokens = tokens[:max_tokens];
     decode(tokens)\<close>\<close>
  "truncate_to self text max_tokens =
     (case encode (encoder self) text of
        Inl e \<Rightarrow> Inl e
      | Inr tokens \<Rightarrow>
          Inr (decode (encoder self)
                 (if int (length tokens) > max_tokens then py_slice tokens 0 max_tokens
                  else tokens)))"

definition greedy_extract :: "builder \<Rightarrow> int \<Rightarrow> card_section list \<Rightarrow> string list" where
  \<comment> \<open>key sections first, then the other sections, on one running total\<close>
  "greedy_extract self max_tokens sections =
     (let key_sections = filter is_key sections;
          other_sections = filter (\<lambda>s. \<not> is_key s) sections
      in fst (add_sections self max_tokens other_sections
                (add_sections self max_tokens key_sections ([], 0))))"

definition extract_key_sections :: "builder \<Rightarrow> string \<Rightarrow> int \<Rightarrow> string" where
  "extract_key_sections self text max_tokens =
     (if text = [] then []
      else
        (let result = join [LF, LF] (greedy_extract self max_tokens (split_sections text))
         in if result = [] \<or> strip result = [] then
              (case truncate_to self text max_tokens of
                 Inr truncated \<Rightarrow> truncated
               | Inl _ \<Rightarrow>
                   (case truncate_to self text max_tokens of
                      Inr truncated \<Rightarrow> truncated
                    | Inl _ \<Rightarrow> take 50000 text))
            else result))"

subsection \<open>_sliding_window_split\<close>

partial_function (option) window_loop ::
  "int \<Rightarrow> int \<Rightarrow> int \<Rightarrow> int \<Rightarrow> (int \<times> int) list \<Rightarrow> (int \<times> int) list option" where
  "window_loop target overlap n start windows =
     (if start < n then
        (let stop = min (start + target) n;
             windows' = windows @ [(start, stop)]
         in if stop \<ge> n then Some windows'
            else window_loop target overlap n (stop - overlap) windows')
      else Some windows)"

definition sliding_windows :: "int \<Rightarrow> int \<Rightarrow> nat \<Rightarrow> (int \<times> int) list option" where
  \<comment> \<open>the \<^verbatim>\<open>(start, end)\<close> of every iteration of the loop on \<open>n\<close> tokens; \<open>None\<close> when the
     loop does not end\<close>
  "sliding_windows target overlap n = window_loop target overlap (int n) 0 []"

definition sliding_window_split :: "builder \<Rightarrow> string \<Rightarrow> (py_error + string list) option" where
  "sliding_window_split self text =
     (case encode (encoder self) text of
        Inl e \<Rightarrow> Some (Inl e)
      | Inr tokens \<Rightarrow>
          (case sliding_windows (chunk_target (config self)) (chunk_overlap (config self))
                  (length tokens) of
             None \<Rightarrow> None
           | Some windows \<Rightarrow>
               Some (Inr (map (\<lambda>(start, stop). decode (encoder self) (py_slice tokens start stop))
                            windows))))"

text \<open>What a list of windows over \<open>n\<close> tokens, the first starting at \<open>start\<close>, has to satisfy.\<close>

definition windows_from :: "int \<Rightarrow> int \<Rightarrow> int \<Rightarrow> int \<Rightarrow> (int \<times> int) list \<Rightarrow> bool" where
  "windows_from t ov n start ws \<longleftrightarrow>
     (n \<le> start \<longrightarrow> ws = [])
     \<and> (start < n \<longrightarrow> ws \<noteq> [] \<and> fst (hd ws) = start \<and> snd (last ws) = n)
     \<and> (\<forall>w \<in> set ws. start \<le> fst w \<and> fst w < snd w \<and> snd w = min (fst w + t) n)
     \<and> (\<forall>i. Suc i < length ws \<longrightarrow>
           fst (ws ! Suc i) = snd (ws ! i) - ov \<and> snd (ws ! i) = fst (ws ! i) + t)
     \<and> (\<forall>k. start \<le> k \<and> k < n \<longrightarrow> (\<exists>w \<in> set ws. fst w \<le> k \<and> k < snd w))"

definition char_encoder :: encoder where
  \<comment> \<open>a tokenizer with one token per character\<close>
  "char_encoder = \<lparr>encode = (\<lambda>s. Inr (map of_char s)), decode = map char_of\<rparr>"

definition char_builder :: "int \<Rightarrow> int \<Rightarrow> builder" where
  "char_builder target overlap =
     \<lparr>config = default_config\<lparr>chunk_target := target, chunk_overlap := overlap\<rparr>,
      encoder = char_encoder, sha256_hexdigest = id\<rparr>"

subsection \<open>chunk_text\<close>

record chunk =
  chunk_hash :: string
  parent_card_hash :: string
  chunk_index :: nat
  chunk_content :: string
  chunk_token_count :: int

definition make_chunk :: "builder \<Rightarrow> string \<Rightarrow> nat \<Rightarrow> string \<Rightarrow> int \<Rightarrow> chunk" where
  "make_chunk self parent idx text tokens =
     \<lparr>chunk_hash = compute_hash self text, parent_card_hash = parent, chunk_index = idx,
      chunk_content = text, chunk_token_count = tokens\<rparr>"

definition is_h2_h3 :: "string \<Rightarrow> bool" where
  \<comment> \<open>\<^verbatim>\<open>re.match(r'^#{2,3}\s+', line)\<close>\<close>
  "is_h2_h3 line =
     (let k = length (takeWhile (\<lambda>c. c = CHR ''#'') line)
      in (k = 2 \<or> k = 3) \<and>
         (case dropWhile (\<lambda>c. c = CHR ''#'') line of [] \<Rightarrow> False | c # _ \<Rightarrow> isspace c))"

definition heading_step :: "string list \<times> string list \<Rightarrow> string \<Rightarrow> string list \<times> string list" where
  "heading_step st line =
     (case st of (sections, current_section) \<Rightarrow>
        if is_h2_h3 line then
          ((if current_section \<noteq> [] then sections @ [join [LF] current_section] else sections),
           [line])
        else (sections, current_section @ [line]))"

definition heading_sections :: "string \<Rightarrow> string list" where
  "heading_sections text =
     (case foldl heading_step ([], []) (split_lines text) of
        (sections, current_section) \<Rightarrow>
          if current_section \<noteq> [] then sections @ [join [LF] current_section] else sections)"

definition sub_chunks :: "builder \<Rightarrow> string \<Rightarrow> nat \<Rightarrow> string list \<Rightarrow> chunk list" where
  \<comment> \<open>the chunks of the windows of one section, numbered from \<open>idx\<close>\<close>
  "sub_chunks self parent idx subs =
     map (\<lambda>(i, sub). make_chunk self parent i sub (count_tokens self sub)) (enumerate idx subs)"

fun process_sections ::
  "builder \<Rightarrow> string \<Rightarrow> string list \<Rightarrow> nat \<Rightarrow> chunk list \<Rightarrow> (py_error + chunk list) option" where
  \<comment> \<open>the loop over the sections, on \<^verbatim>\<open>chunk_index\<close> and \<^verbatim>\<open>chunks\<close>; \<open>None\<close> when a
     sliding-window split does not end\<close>
  "process_sections self parent [] idx chunks = Some (Inr chunks)"
| "process_sections self parent (sec # rest) idx chunks =
     (let section_tokens = count_tokens self sec
      in if section_tokens \<le> chunk_target (config self) then
           process_sections self parent rest (idx + 1)
             (chunks @ [make_chunk self parent idx sec section_tokens])
         else
           (case sliding_window_split self sec of
              None \<Rightarrow> None
            | Some (Inl e) \<Rightarrow> Some (Inl e)
            | Some (Inr subs) \<Rightarrow>
                process_sections self parent rest (idx + length subs)
                  (chunks @ sub_chunks self parent idx subs)))"

definition truncate_12000 :: "builder \<Rightarrow> string \<Rightarrow> py_error + string" where
  \<comment> \<open>\<^verbatim>\<open>decode(encode(normalized_text)[:12000])\<close>\<close>
  "truncate_12000 self text =
     (case encode (encoder self) text of
        Inl e \<Rightarrow> Inl e
      | Inr tokens \<Rightarrow> Inr (decode (encoder self) (py_slice tokens 0 12000)))"

definition reduce_large_card :: "builder \<Rightarrow> string \<Rightarrow> py_error + (string \<times> int)" where
  \<comment> \<open>the branch for cards of 10000 to 100000 tokens: the new text and its token count; an
     error of the first truncation is caught and the truncation tried again\<close>
  "reduce_large_card self normalized_text =
     (let extracted_text = extract_key_sections self normalized_text 12000
      in if extracted_text = [] \<or> strip extracted_text = [] then
           (case truncate_12000 self normalized_text of
              Inr t \<Rightarrow> Inr (t, count_tokens self t)
            | Inl _ \<Rightarrow>
                (case truncate_12000 self normalized_text of
                   Inr t \<Rightarrow> Inr (t, count_tokens self t)
                 | Inl e \<Rightarrow> Inl e))
         else Inr (extracted_text, count_tokens self extracted_text))"

definition chunk_text :: "builder \<Rightarrow> string \<Rightarrow> string \<Rightarrow> int \<Rightarrow> (py_error + chunk list) option" where
  "chunk_text self text parent n_tokens =
     (case (if 10000 \<le> n_tokens \<and> n_tokens \<le> 100000
            then reduce_large_card self (normalize_text text)
            else Inr (normalize_text text, n_tokens)) of
        Inl e \<Rightarrow> Some (Inl e)
      | Inr (normalized_text, n_tokens') \<Rightarrow>
          if n_tokens' \<le> chunk_target (config self) then
            Some (Inr [make_chunk self parent 0 normalized_text n_tokens'])
          else
            (case (if length (heading_sections normalized_text) \<le> 1
                   then sliding_window_split self normalized_text
                   else Some (Inr (heading_sections normalized_text))) of
               None \<Rightarrow> None
             | Some (Inl e) \<Rightarrow> Some (Inl e)
             | Some (Inr sections) \<Rightarrow> process_sections self parent sections 0 []))"

definition chunk_view :: "chunk \<Rightarrow> string \<times> nat \<times> string \<times> int" where
  \<comment> \<open>a chunk without the hash of its card\<close>
  "chunk_view c = (chunk_hash c, chunk_index c, chunk_content c, chunk_token_count c)"

definition views :: "(py_error + chunk list) option \<Rightarrow> (py_error + (string \<times> nat \<times> string \<times> int) list) option" where
  "views r = map_option (map_sum id (map chunk_view)) r"

definition well_numbered :: "builder \<Rightarrow> string \<Rightarrow> chunk list \<Rightarrow> bool" where
  "well_numbered self parent cs \<longleftrightarrow>
     map chunk_index cs = [0..<length cs]
     \<and> map chunk_hash cs = map (\<lambda>c. compute_hash self (chunk_content c)) cs
     \<and> map parent_card_hash cs = replicate (length cs) parent"

text \<open>A builder whose tokenizer gives every text one token more than the target.\<close>

definition stuck_builder :: "config \<Rightarrow> builder" where
  "stuck_builder cfg =
     \<lparr>config = cfg,
      encoder = \<lparr>encode = (\<lambda>_. Inr (replicate (nat (max (chunk_target cfg) 0) + 1) 0)),
                 decode = (\<lambda>_. ''x'')\<rparr>,
      sha256_hexdigest = id\<rparr>"






section \<open>Model search (backend/app/tools/hf_tool.py)\<close>

text \<open>
  The embedding service and the two database queries are outside the function: the
  environment holds them as functions that return rows or raise. A result row of the
  second query carries the model, the hash of its card and the two filtered columns.
  The environment also holds
  \<^verbatim>\<open>rank_hf_models\<close>, which computes its scores in floating point: the search only
  passes the rows and the relevance of each model to it and slices what it returns.
  Similarities are passed on as they come from the database, with no arithmetic.
\<close>

record settings =
  hf_top_k :: int
  hf_chunk_top_k :: int
  hf_embedding_model_name :: string
  hf_chunker_version :: string

record card_score =
  cs_card_hash :: string
  combined_similarity :: real

record model_row =
  row_model :: hf_model
  row_card_hash :: string
  row_license :: "string option"
  row_pipeline_tag :: "string option"

record search_filters =
  filter_pipeline_tag :: "string option"
  filter_license :: "string list option"

record search_metadata =
  md_total_found :: nat
  md_top_k :: int
  md_query :: string
  md_embedding_model :: string
  md_chunker_version :: "string option"
  md_filters :: "search_filters option"

record 'r search_result =
  sr_results :: "'r list"
  sr_metadata :: search_metadata

record 'r hf_env =
  env_settings :: settings
  get_query_embedding :: "string \<Rightarrow> py_error + real list"
  chunk_search :: "real list \<Rightarrow> string \<Rightarrow> string \<Rightarrow> int \<Rightarrow> py_error + card_score list"
  model_search :: "string list \<Rightarrow> string list \<Rightarrow> string option \<Rightarrow> py_error + model_row list"
  rank_models :: "model_row list \<Rightarrow> (string \<rightharpoonup> real) \<Rightarrow> 'r list"

definition default_settings :: settings where
  "default_settings =
     \<lparr>hf_top_k = 5, hf_chunk_top_k = 20, hf_embedding_model_name = ''text-embedding-3-small'',
      hf_chunker_version = ''hf_chunker_v1''\<rparr>"

definition top_k_or_default :: "settings \<Rightarrow> int option \<Rightarrow> int" where
  \<comment> \<open>\<^verbatim>\<open>top_k or settings.hf_top_k\<close>: \<^verbatim>\<open>None\<close> and \<open>0\<close> are both falsy\<close>
  "top_k_or_default s k = (case k of None \<Rightarrow> hf_top_k s | Some v \<Rightarrow> if v = 0 then hf_top_k s else v)"

definition relevance_by_card :: "card_score list \<Rightarrow> (string \<rightharpoonup> real)" where
  \<comment> \<open>\<^verbatim>\<open>{cs['card_hash']: cs['combined_similarity'] for cs in card_scores}\<close>\<close>
  "relevance_by_card card_scores =
     fold (\<lambda>cs m. m(cs_card_hash cs \<mapsto> combined_similarity cs)) card_scores Map.empty"

definition propagate_relevance :: "(string \<rightharpoonup> real) \<Rightarrow> model_row list \<Rightarrow> (string \<rightharpoonup> real)" where
  \<comment> \<open>\<^verbatim>\<open>relevance_scores[model['model_id']] = relevance_by_card.get(card_hash, 0.0)\<close>\<close>
  "propagate_relevance by_card models =
     fold (\<lambda>row m. m(model_id (row_model row) \<mapsto>
             (case by_card (row_card_hash row) of None \<Rightarrow> 0 | Some r \<Rightarrow> r)))
       models Map.empty"

definition search_hf_models ::
  "'r hf_env \<Rightarrow> string \<Rightarrow> string option \<Rightarrow> string list option \<Rightarrow> int option \<Rightarrow> py_error + 'r search_result" where
  "search_hf_models env q tag license_filter k =
     (let s = env_settings env;
          k' = top_k_or_default s k
      in case get_query_embedding env q of
           Inl e \<Rightarrow> Inl e
         | Inr query_embedding \<Rightarrow>
             (case chunk_search env query_embedding (hf_embedding_model_name s)
                     (hf_chunker_version s) (hf_chunk_top_k s) of
                Inl e \<Rightarrow> Inl e
              | Inr card_scores \<Rightarrow>
                  if card_scores = [] then
                    Inr \<lparr>sr_results = [],
                         sr_metadata = \<lparr>md_total_found = 0, md_top_k = k', md_query = q,
                                        md_embedding_model = hf_embedding_model_name s,
                                        md_chunker_version = None, md_filters = None\<rparr>\<rparr>
                  else
                    (case model_search env (map cs_card_hash card_scores)
                            (case license_filter of None \<Rightarrow> [] | Some ls \<Rightarrow> ls)
                            (case tag of None \<Rightarrow> None | Some t \<Rightarrow> if t = [] then None else Some t) of
                       Inl e \<Rightarrow> Inl e
                     | Inr models \<Rightarrow>
                         (let relevance_scores =
                                propagate_relevance (relevance_by_card card_scores) models;
                              ranked_models = rank_models env models relevance_scores
                          in Inr \<lparr>sr_results = py_slice ranked_models 0 k',
                                  sr_metadata =
                                    \<lparr>md_total_found = length ranked_models, md_top_k = k',
                                     md_query = q,
                                     md_embedding_model = hf_embedding_model_name s,
                                     md_chunker_version = Some (hf_chunker_version s),
                                     md_filters = Some \<lparr>filter_pipeline_tag = tag,
                                                       filter_license = license_filter\<rparr>\<rparr>\<rparr>))))"

definition empty_env :: "model_row hf_env" where
  \<comment> \<open>an environment whose chunk table has no row for the configured model and version\<close>
  "empty_env =
     \<lparr>env_settings = default_settings,
      get_query_embedding = (\<lambda>_. Inr [0.25, 0.5]),
      chunk_search = (\<lambda>_ _ _ _. Inr []),
      model_search = (\<lambda>_ _ _. Inl DatabaseError),
      rank_models = (\<lambda>models _. models)\<rparr>"

section \<open>Shared facts about ranks and sorting\<close>

lemma length_add_ranks: "length (add_ranks xs) = length xs"
  by (simp add: add_ranks_def)

lemma add_ranks_nth: "i < length xs \<Longrightarrow> add_ranks xs ! i = (xs ! i, Suc i)"
  by (simp add: add_ranks_def nth_enumerate_eq)

lemma map_fst_add_ranks: "map fst (add_ranks xs) = xs"
  by (rule nth_equalityI) (simp_all add: length_add_ranks add_ranks_nth)

lemma map_snd_add_ranks: "map snd (add_ranks xs) = map Suc [0..<length xs]"
  by (rule nth_equalityI) (simp_all add: length_add_ranks add_ranks_nth)

lemma sorted_map_imp_sorted_wrt:
  assumes "sorted (map f xs)" and "\<And>a b. f a \<le> f b \<Longrightarrow> R a b"
  shows "sorted_wrt R xs"
proof -
  have "sorted_wrt (\<lambda>a b. f a \<le> f b) xs"
    using assms(1) by (simp add: sorted_map)
  then show ?thesis
    by (rule sorted_wrt_mono_rel [rotated]) (simp add: assms(2))
qed

section \<open>Compute ranking\<close>

lemma compute_tuple_le:
  fixes pa pb :: real and va vb ga gb :: int and ra rb na nb :: string
  shows "(pa, - va, - ga, ra, na) \<le> (pb, - vb, - gb, rb, nb) \<longleftrightarrow>
     pa < pb \<or> pa = pb \<and> (vb < va \<or> va = vb \<and> (gb < ga \<or> ga = gb \<and>
       (ra < rb \<or> ra = rb \<and> na \<le> nb)))"
  by auto

lemma compute_key_le:
  "compute_sort_key a \<le> compute_sort_key b \<longleftrightarrow> compute_before_eq a b"
  unfolding compute_sort_key_def compute_tuple_le compute_before_eq_def Let_def
    price_or_sentinel_def int_or_zero_def
  by (rule refl)

text \<open>
  What the code does on every list: \<^const>\<open>rank_compute_instances\<close> returns the rows
  it was given (as a multiset), ordered ascending by price where a price that is missing
  or zero counts as 999999, then descending by the value under \<^verbatim>\<open>gpu_memory_gb\<close>, then
  descending by GPU count, then ascending by provider, then ascending by name; rows with
  equal keys keep their input order; the ranks are 1, 2, ..., n.
\<close>

lemma rank_compute_instances_order:
  "mset (map fst (rank_compute_instances xs)) = mset xs
   \<and> sorted_wrt compute_before_eq (map fst (rank_compute_instances xs))
   \<and> filter (\<lambda>i. compute_sort_key i = k) (map fst (rank_compute_instances xs))
       = filter (\<lambda>i. compute_sort_key i = k) xs
   \<and> map snd (rank_compute_instances xs) = map Suc [0..<length xs]"
proof -
  have fst_eq: "map fst (rank_compute_instances xs) = sort_key compute_sort_key xs"
    by (simp add: rank_compute_instances_def map_fst_add_ranks)
  have "sorted (map compute_sort_key (sort_key compute_sort_key xs))"
    by simp
  then have srt: "sorted_wrt compute_before_eq (sort_key compute_sort_key xs)"
    by (rule sorted_map_imp_sorted_wrt) (simp add: compute_key_le)
  have stable: "filter (\<lambda>i. compute_sort_key i = k) (sort_key compute_sort_key xs)
      = filter (\<lambda>i. compute_sort_key i = k) xs"
    by (rule sort_key_stable)
  have ranks: "map snd (rank_compute_instances xs) = map Suc [0..<length xs]"
    by (simp add: rank_compute_instances_def map_snd_add_ranks)
  show ?thesis
    using fst_eq srt stable ranks by simp
qed

text \<open>
  C3: the code departs from the claim, and from its own docstring (price ascending,
  cheaper first; more VRAM preferred at equal price). A row priced 0 is ordered after a
  row priced 100, because \<^verbatim>\<open>0 or 999999\<close> is 999999. And on the rows of
  \<^verbatim>\<open>search_compute_instances\<close>, which hold the GPU memory under \<^verbatim>\<open>vram_gb\<close>, the
  GPU memory is not compared: of two rows priced 100, the one with 40 GB and two GPUs
  comes before the one with 80 GB and one GPU. Where the rows hold the key
  \<^verbatim>\<open>gpu_memory_gb\<close>, the one with 80 GB comes first.
\<close>

theorem rank_compute_instances_zero_price_last:
  "map (price_monthly \<circ> fst) (rank_compute_instances [inst_free, inst_paid])
     = [Some 100, Some 0]
   \<and> map (vram_gb \<circ> fst)
       (rank_compute_instances
          [query_row 100 40 2 ''aws'' ''b'', query_row 100 80 1 ''aws'' ''a''])
     = [Some 40, Some 80]
   \<and> rank_compute_instances [inst_b, inst_a] = [(inst_a, 1), (inst_b, 2)]"
  by (simp add: rank_compute_instances_def add_ranks_def compute_sort_key_def
      price_or_sentinel_def int_or_zero_def inst_free_def inst_paid_def query_row_def
      inst_a_def inst_b_def)

section \<open>Package ranking\<close>




















section \<open>Exclusion rules\<close>

lemma sql_update_length: "length (fst (sql_update cond upd rows)) = length rows"
  by (simp add: sql_update_def)

lemma sql_update_nth:
  "i < length rows \<Longrightarrow>
   fst (sql_update cond upd rows) ! i = (if cond (rows ! i) then upd (rows ! i) else rows ! i)"
  by (simp add: sql_update_def)

text \<open>
  C6, as amended. Rule 1 keeps the number and order of the rows; it changes exactly the
  rows whose flag is FALSE and whose text is the string \<^verbatim>\<open>No model card found.\<close>,
  setting their flag and the reason \<^verbatim>\<open>No content\<close> and nothing else; every other row
  is left as it was; the count it reports is the number of rows it changed; and the rows
  it marked still carry that reason after rules 2 and 3.
\<close>

theorem exclusion_rule1_exact:
  "length (fst (exclusion_rule1 cards)) = length cards
   \<and> snd (exclusion_rule1 cards)
       = length (filter (\<lambda>r. card_text r = Some ''No model card found.''
                              \<and> excluded_from_rag r = Some False) cards)
   \<and> (i < length cards \<longrightarrow>
        (if card_text (cards ! i) = Some ''No model card found.''
            \<and> excluded_from_rag (cards ! i) = Some False
         then fst (exclusion_rule1 cards) ! i
                = (cards ! i)\<lparr>excluded_from_rag := Some True,
                               exclusion_reason := Some ''No content''\<rparr>
              \<and> fst (apply_exclusion_rules cards) ! i = fst (exclusion_rule1 cards) ! i
         else fst (exclusion_rule1 cards) ! i = cards ! i))"
proof -
  have len: "length (fst (exclusion_rule1 cards)) = length cards"
    by (simp add: exclusion_rule1_def sql_update_length)
  have cnt: "snd (exclusion_rule1 cards)
      = length (filter (\<lambda>r. card_text r = Some ''No model card found.''
                             \<and> excluded_from_rag r = Some False) cards)"
  proof -
    have "rule1_cond = (\<lambda>r. card_text r = Some ''No model card found.''
        \<and> excluded_from_rag r = Some False)"
      by (rule ext) (simp add: rule1_cond_def)
    then show ?thesis
      by (simp add: exclusion_rule1_def sql_update_def)
  qed
  have row: "fst (exclusion_rule1 cards) ! i
      = (if rule1_cond (cards ! i) then exclude ''No content'' (cards ! i) else cards ! i)"
    if "i < length cards"
    using that by (simp add: exclusion_rule1_def sql_update_nth)
  have later: "fst (apply_exclusion_rules cards) ! i = fst (exclusion_rule1 cards) ! i"
    if "i < length cards" and "rule1_cond (cards ! i)"
  proof -
    let ?c1 = "fst (exclusion_rule1 cards)"
    let ?c2 = "fst (exclusion_rule2 ?c1)"
    have r1: "?c1 ! i = exclude ''No content'' (cards ! i)"
      using that row by simp
    have i1: "i < length ?c1" using that len by simp
    have n2: "\<not> rule2_cond (?c1 ! i)"
      by (simp add: r1 rule2_cond_def exclude_def)
    have r2: "?c2 ! i = ?c1 ! i"
      using i1 n2 by (simp add: exclusion_rule2_def sql_update_nth)
    have i2: "i < length ?c2"
      using i1 by (simp add: exclusion_rule2_def sql_update_length)
    have n3: "\<not> rule3_cond (?c2 ! i)"
      by (simp add: r2 r1 rule3_cond_def exclude_def)
    have r3: "fst (exclusion_rule3 ?c2) ! i = ?c2 ! i"
      using i2 n3 by (simp add: exclusion_rule3_def sql_update_nth)
    have "fst (apply_exclusion_rules cards) = fst (exclusion_rule3 ?c2)"
      by (simp add: apply_exclusion_rules_def case_prod_beta Let_def)
    then show ?thesis using r3 r2 by simp
  qed
  show ?thesis
    using len cnt row later by (simp add: rule1_cond_def exclude_def)
qed

theorem exclusion_rule1_exact_witness:
  "(0::nat) < length [card_no_model_card, card_lowercase_sentinel]
   \<and> fst (exclusion_rule1 [card_no_model_card, card_lowercase_sentinel]) ! 0
       = card_no_model_card\<lparr>excluded_from_rag := Some True,
                             exclusion_reason := Some ''No content''\<rparr>
   \<and> fst (apply_exclusion_rules [card_no_model_card, card_lowercase_sentinel]) ! 0
       = fst (exclusion_rule1 [card_no_model_card, card_lowercase_sentinel]) ! 0
   \<and> snd (exclusion_rule1 [card_no_model_card, card_lowercase_sentinel]) = 1"
  using exclusion_rule1_exact [of "[card_no_model_card, card_lowercase_sentinel]" 0]
  by (simp add: card_no_model_card_def card_lowercase_sentinel_def)

text \<open>
  C6 as stated fails: a row that is not excluded and whose text is
  \<^verbatim>\<open>no content found\<close> is not marked, by rule 1 or by the whole pass; and the row
  that rule 1 does mark gets the reason \<^verbatim>\<open>No content\<close>, not \<^verbatim>\<open>no content\<close>.
\<close>

theorem exclusion_rule1_lowercase_sentinel_unmarked:
  "exclusion_rule1 [card_lowercase_sentinel] = ([card_lowercase_sentinel], 0)
   \<and> fst (apply_exclusion_rules [card_lowercase_sentinel]) = [card_lowercase_sentinel]
   \<and> map exclusion_reason (fst (exclusion_rule1 [card_no_model_card])) \<noteq> [Some ''no content'']"
  by (simp add: exclusion_rule1_def exclusion_rule2_def exclusion_rule3_def
      apply_exclusion_rules_def sql_update_def rule1_cond_def rule2_cond_def rule3_cond_def
      exclude_def card_lowercase_sentinel_def card_no_model_card_def)


section \<open>Canonical mapping\<close>
























section \<open>Sliding-window split\<close>

lemma window_loop_terminates:
  assumes "ov < t"
  shows "\<exists>ws. window_loop t ov n start acc = Some ws"
proof (induction "nat (n - start)" arbitrary: start acc rule: less_induct)
  case less
  show ?case
  proof (cases "start < n")
    case False
    then show ?thesis by (subst window_loop.simps) simp
  next
    case True
    show ?thesis
    proof (cases "n \<le> min (start + t) n")
      case True
      with \<open>start < n\<close> show ?thesis by (subst window_loop.simps) (simp add: Let_def)
    next
      case False
      then have stop: "min (start + t) n = start + t" by simp
      have "nat (n - (start + t - ov)) < nat (n - start)"
        using assms \<open>start < n\<close> by simp
      from less [OF this, of "acc @ [(start, start + t)]"]
      obtain ws where "window_loop t ov n (start + t - ov) (acc @ [(start, start + t)]) = Some ws"
        by blast
      then show ?thesis
        using \<open>start < n\<close> False by (subst window_loop.simps) (simp add: Let_def stop)
    qed
  qed
qed

lemma window_loop_diverges_aux:
  assumes "window_loop t ov n start acc = Some y"
  shows "\<not> (t \<le> ov \<and> t < n \<and> 0 < n \<and> start \<le> 0)"
proof (rule window_loop.raw_induct
    [where P = "\<lambda>t ov n start acc y. \<not> (t \<le> ov \<and> t < n \<and> 0 < n \<and> start \<le> 0)", OF _ assms])
  fix loop :: "int \<Rightarrow> int \<Rightarrow> int \<Rightarrow> int \<Rightarrow> (int \<times> int) list \<Rightarrow> (int \<times> int) list option"
  fix t ov n start :: int and acc y :: "(int \<times> int) list"
  assume IH: "\<And>t ov n start acc y. loop t ov n start acc = Some y \<Longrightarrow>
      \<not> (t \<le> ov \<and> t < n \<and> 0 < n \<and> start \<le> 0)"
  assume body: "(if start < n
      then let stop = min (start + t) n; windows' = acc @ [(start, stop)]
           in if n \<le> stop then Some windows' else loop t ov n (stop - ov) windows'
      else Some acc) = Some y"
  show "\<not> (t \<le> ov \<and> t < n \<and> 0 < n \<and> start \<le> 0)"
  proof
    assume c: "t \<le> ov \<and> t < n \<and> 0 < n \<and> start \<le> 0"
    then have lt: "start < n" and stop: "min (start + t) n = start + t" and nf: "\<not> n \<le> start + t"
      by simp_all
    from body have "loop t ov n (start + t - ov) (acc @ [(start, start + t)]) = Some y"
      using lt nf by (simp add: Let_def stop)
    then have "\<not> (t \<le> ov \<and> t < n \<and> 0 < n \<and> start + t - ov \<le> 0)"
      by (rule IH)
    with c show False by linarith
  qed
qed

lemma window_loop_diverges:
  assumes "t \<le> ov" "t < n" "0 < n" "start \<le> 0"
  shows "window_loop t ov n start acc = None"
proof (cases "window_loop t ov n start acc")
  case None
  then show ?thesis .
next
  case (Some y)
  from window_loop_diverges_aux [OF this] assms show ?thesis by simp
qed

lemma sliding_windows_none_iff:
  "sliding_windows t ov n = None \<longleftrightarrow> t \<le> ov \<and> t < int n \<and> 0 < n"
proof
  assume none: "sliding_windows t ov n = None"
  show "t \<le> ov \<and> t < int n \<and> 0 < n"
  proof (rule ccontr)
    assume "\<not> (t \<le> ov \<and> t < int n \<and> 0 < n)"
    then consider "ov < t" | "int n \<le> t" "0 < n" | "n = 0" by linarith
    then show False
    proof cases
      case 1
      from window_loop_terminates [OF this, of "int n" 0 "[]"] none show False
        by (simp add: sliding_windows_def)
    next
      case 2
      then have "window_loop t ov (int n) 0 [] = Some [(0, int n)]"
        by (subst window_loop.simps) (simp add: Let_def)
      with none show False by (simp add: sliding_windows_def)
    next
      case 3
      then have "window_loop t ov (int n) 0 [] = Some []"
        by (subst window_loop.simps) simp
      with none show False by (simp add: sliding_windows_def)
    qed
  qed
next
  assume "t \<le> ov \<and> t < int n \<and> 0 < n"
  then show "sliding_windows t ov n = None"
    unfolding sliding_windows_def by (intro window_loop_diverges) simp_all
qed


lemma windows_from_done: "n \<le> start \<Longrightarrow> windows_from t ov n start []"
  by (simp add: windows_from_def)

lemma windows_from_last:
  assumes "start < n" "n \<le> start + t"
  shows "windows_from t ov n start [(start, n)]"
  using assms by (simp add: windows_from_def)

lemma windows_from_step:
  assumes ov: "0 \<le> ov" "ov < t" and lt: "start + t < n"
    and rest: "windows_from t ov n (start + t - ov) ws"
  shows "windows_from t ov n start ((start, start + t) # ws)"
proof -
  let ?s' = "start + t - ov"
  have s'n: "?s' < n" using ov lt by simp
  from rest s'n have ne: "ws \<noteq> []" and hd_ws: "fst (hd ws) = ?s'" and last_ws: "snd (last ws) = n"
    by (simp_all add: windows_from_def)
  from rest have elems: "\<And>w. w \<in> set ws \<Longrightarrow> ?s' \<le> fst w \<and> fst w < snd w \<and> snd w = min (fst w + t) n"
    unfolding windows_from_def by blast
  from rest have consec: "\<And>i. Suc i < length ws \<Longrightarrow>
      fst (ws ! Suc i) = snd (ws ! i) - ov \<and> snd (ws ! i) = fst (ws ! i) + t"
    unfolding windows_from_def by blast
  from rest have cover: "\<And>k. ?s' \<le> k \<Longrightarrow> k < n \<Longrightarrow> \<exists>w \<in> set ws. fst w \<le> k \<and> k < snd w"
    unfolding windows_from_def by blast
  let ?ws = "(start, start + t) # ws"
  have c2: "?ws \<noteq> [] \<and> fst (hd ?ws) = start \<and> snd (last ?ws) = n"
    using ne last_ws by simp
  have c3: "\<forall>w \<in> set ?ws. start \<le> fst w \<and> fst w < snd w \<and> snd w = min (fst w + t) n"
  proof
    fix w assume "w \<in> set ?ws"
    then consider "w = (start, start + t)" | "w \<in> set ws" by auto
    then show "start \<le> fst w \<and> fst w < snd w \<and> snd w = min (fst w + t) n"
    proof cases
      case 1
      then show ?thesis using ov lt by simp
    next
      case 2
      from elems [OF this] show ?thesis using ov by linarith
    qed
  qed
  have c4: "\<forall>i. Suc i < length ?ws \<longrightarrow>
      fst (?ws ! Suc i) = snd (?ws ! i) - ov \<and> snd (?ws ! i) = fst (?ws ! i) + t"
  proof (intro allI impI)
    fix i assume i: "Suc i < length ?ws"
    show "fst (?ws ! Suc i) = snd (?ws ! i) - ov \<and> snd (?ws ! i) = fst (?ws ! i) + t"
    proof (cases i)
      case 0
      have "ws ! 0 = hd ws" using ne by (simp add: hd_conv_nth)
      then show ?thesis using 0 hd_ws by simp
    next
      case (Suc j)
      then have "Suc j < length ws" using i by simp
      from consec [OF this] show ?thesis using Suc by simp
    qed
  qed
  have c5: "\<forall>k. start \<le> k \<and> k < n \<longrightarrow> (\<exists>w \<in> set ?ws. fst w \<le> k \<and> k < snd w)"
  proof (intro allI impI)
    fix k assume k: "start \<le> k \<and> k < n"
    show "\<exists>w \<in> set ?ws. fst w \<le> k \<and> k < snd w"
    proof (cases "k < start + t")
      case True
      then show ?thesis using k by simp
    next
      case False
      then have "?s' \<le> k" using ov by simp
      from cover [OF this] k show ?thesis by auto
    qed
  qed
  have c1: "n \<le> start \<longrightarrow> ?ws = []" using ov lt by simp
  show ?thesis
    unfolding windows_from_def using c1 c2 c3 c4 c5 by blast
qed

lemma window_loop_windows:
  assumes ov: "0 \<le> ov" "ov < t"
  shows "\<exists>ws. window_loop t ov n start acc = Some (acc @ ws) \<and> windows_from t ov n start ws"
proof (induction "nat (n - start)" arbitrary: start acc rule: less_induct)
  case less
  show ?case
  proof (cases "start < n")
    case False
    then have "window_loop t ov n start acc = Some (acc @ [])"
      by (subst window_loop.simps) simp
    moreover have "windows_from t ov n start []"
      using False by (simp add: windows_from_done)
    ultimately show ?thesis by blast
  next
    case True
    show ?thesis
    proof (cases "n \<le> start + t")
      case le: True
      have "window_loop t ov n start acc = Some (acc @ [(start, n)])"
        using True le by (subst window_loop.simps) (simp add: Let_def)
      moreover have "windows_from t ov n start [(start, n)]"
        using True le by (rule windows_from_last)
      ultimately show ?thesis by blast
    next
      case False
      then have lt: "start + t < n" by simp
      then have stop: "min (start + t) n = start + t" by simp
      have "nat (n - (start + t - ov)) < nat (n - start)"
        using ov True by simp
      from less [OF this, of "acc @ [(start, start + t)]"]
      obtain ws where loop: "window_loop t ov n (start + t - ov) (acc @ [(start, start + t)])
            = Some ((acc @ [(start, start + t)]) @ ws)"
        and rest: "windows_from t ov n (start + t - ov) ws"
        by blast
      have "window_loop t ov n start acc = Some (acc @ (start, start + t) # ws)"
        using True lt loop by (subst window_loop.simps) (simp add: Let_def stop)
      moreover have "windows_from t ov n start ((start, start + t) # ws)"
        using ov lt rest by (rule windows_from_step)
      ultimately show ?thesis by blast
    qed
  qed
qed

lemma py_slice_window:
  assumes "0 \<le> s" "s \<le> e" "e \<le> int (length xs)"
  shows "py_slice xs s e = take (nat (e - s)) (drop (nat s) xs)"
  using assms by (simp add: py_slice_def Let_def min_def)


lemma sliding_windows_from:
  assumes "0 \<le> ov" "ov < t"
  shows "\<exists>ws. sliding_windows t ov n = Some ws \<and> windows_from t ov (int n) 0 ws"
  using window_loop_windows [OF assms, of "int n" 0 "[]"] by (simp add: sliding_windows_def)

lemma sliding_window_split_tokens:
  assumes "encode (encoder self) text = Inr tokens"
    and "sliding_windows (chunk_target (config self)) (chunk_overlap (config self)) (length tokens)
      = Some ws"
  shows "sliding_window_split self text
     = Some (Inr (map (\<lambda>(start, stop). decode (encoder self) (py_slice tokens start stop)) ws))"
  using assms by (simp add: sliding_window_split_def)

lemma sliding_window_split_none_iff:
  "sliding_window_split self text = None \<longleftrightarrow>
     (\<exists>tokens. encode (encoder self) text = Inr tokens
        \<and> sliding_windows (chunk_target (config self)) (chunk_overlap (config self)) (length tokens)
            = None)"
  by (auto simp add: sliding_window_split_def split: sum.splits option.splits)

text \<open>
  C8, as amended. When the overlap is at least 0 and less than the target, the split of a
  text whose tokens are \<open>tokens\<close> ends and returns the decoded windows, in order; every token
  index lies in some window; every window is a non-empty range of at most \<open>target\<close> tokens
  inside the input; each window but the last holds exactly \<open>target\<close> tokens and the next one
  starts \<open>target - overlap\<close> after it, \<open>overlap\<close> before its end; the first window starts at
  index 0 and the last ends at the last token; an input without tokens gives no window.
\<close>

theorem sliding_window_covers:
  assumes "0 \<le> chunk_overlap (config self)"
    and "chunk_overlap (config self) < chunk_target (config self)"
    and "encode (encoder self) text = Inr tokens"
  shows "\<exists>ws.
     sliding_windows (chunk_target (config self)) (chunk_overlap (config self)) (length tokens)
       = Some ws
     \<and> sliding_window_split self text
         = Some (Inr (map (\<lambda>(start, stop). decode (encoder self) (py_slice tokens start stop)) ws))
     \<and> (\<forall>k < length tokens. \<exists>w \<in> set ws. fst w \<le> int k \<and> int k < snd w)
     \<and> (\<forall>w \<in> set ws.
           0 \<le> fst w \<and> fst w < snd w \<and> snd w \<le> int (length tokens)
           \<and> snd w - fst w \<le> chunk_target (config self)
           \<and> py_slice tokens (fst w) (snd w)
               = take (nat (snd w - fst w)) (drop (nat (fst w)) tokens))
     \<and> (\<forall>i. Suc i < length ws \<longrightarrow>
           fst (ws ! Suc i) = fst (ws ! i) + (chunk_target (config self) - chunk_overlap (config self))
           \<and> fst (ws ! Suc i) = snd (ws ! i) - chunk_overlap (config self)
           \<and> snd (ws ! i) - fst (ws ! i) = chunk_target (config self))
     \<and> (tokens \<noteq> [] \<longrightarrow> ws \<noteq> [] \<and> fst (hd ws) = 0 \<and> snd (last ws) = int (length tokens))
     \<and> (tokens = [] \<longrightarrow> ws = [])"
proof -
  let ?t = "chunk_target (config self)" and ?ov = "chunk_overlap (config self)"
  let ?n = "int (length tokens)"
  from sliding_windows_from [OF assms(1,2), of "length tokens"]
  obtain ws where ws: "sliding_windows ?t ?ov (length tokens) = Some ws"
    and wf: "windows_from ?t ?ov ?n 0 ws"
    by blast
  have split: "sliding_window_split self text
      = Some (Inr (map (\<lambda>(start, stop). decode (encoder self) (py_slice tokens start stop)) ws))"
    using assms(3) ws by (rule sliding_window_split_tokens)
  from wf have elems: "\<And>w. w \<in> set ws \<Longrightarrow> 0 \<le> fst w \<and> fst w < snd w \<and> snd w = min (fst w + ?t) ?n"
    unfolding windows_from_def by blast
  from wf have consec: "\<And>i. Suc i < length ws \<Longrightarrow>
      fst (ws ! Suc i) = snd (ws ! i) - ?ov \<and> snd (ws ! i) = fst (ws ! i) + ?t"
    unfolding windows_from_def by blast
  from wf have cover: "\<And>k. 0 \<le> k \<Longrightarrow> k < ?n \<Longrightarrow> \<exists>w \<in> set ws. fst w \<le> k \<and> k < snd w"
    unfolding windows_from_def by blast
  from wf have ends: "0 < ?n \<longrightarrow> ws \<noteq> [] \<and> fst (hd ws) = 0 \<and> snd (last ws) = ?n"
    and empty: "?n \<le> 0 \<longrightarrow> ws = []"
    unfolding windows_from_def by blast+
  have c1: "\<forall>k < length tokens. \<exists>w \<in> set ws. fst w \<le> int k \<and> int k < snd w"
    using cover by simp
  have c2: "\<forall>w \<in> set ws.
      0 \<le> fst w \<and> fst w < snd w \<and> snd w \<le> ?n \<and> snd w - fst w \<le> ?t
      \<and> py_slice tokens (fst w) (snd w) = take (nat (snd w - fst w)) (drop (nat (fst w)) tokens)"
  proof
    fix w assume "w \<in> set ws"
    from elems [OF this] have b: "0 \<le> fst w" "fst w < snd w" "snd w \<le> ?n" "snd w - fst w \<le> ?t"
      by linarith+
    then have "py_slice tokens (fst w) (snd w) = take (nat (snd w - fst w)) (drop (nat (fst w)) tokens)"
      by (intro py_slice_window) simp_all
    with b show "0 \<le> fst w \<and> fst w < snd w \<and> snd w \<le> ?n \<and> snd w - fst w \<le> ?t
      \<and> py_slice tokens (fst w) (snd w) = take (nat (snd w - fst w)) (drop (nat (fst w)) tokens)"
      by simp
  qed
  have c3: "\<forall>i. Suc i < length ws \<longrightarrow>
      fst (ws ! Suc i) = fst (ws ! i) + (?t - ?ov)
      \<and> fst (ws ! Suc i) = snd (ws ! i) - ?ov
      \<and> snd (ws ! i) - fst (ws ! i) = ?t"
  proof (intro allI impI)
    fix i assume "Suc i < length ws"
    from consec [OF this]
    show "fst (ws ! Suc i) = fst (ws ! i) + (?t - ?ov)
      \<and> fst (ws ! Suc i) = snd (ws ! i) - ?ov
      \<and> snd (ws ! i) - fst (ws ! i) = ?t"
      by linarith
  qed
  have c4: "tokens \<noteq> [] \<longrightarrow> ws \<noteq> [] \<and> fst (hd ws) = 0 \<and> snd (last ws) = ?n"
    using ends by simp
  have c5: "tokens = [] \<longrightarrow> ws = []"
    using empty by simp
  from ws split c1 c2 c3 c4 c5 show ?thesis by blast
qed

lemma py_slice_map: "py_slice (map f xs) a b = map f (py_slice xs a b)"
  by (simp add: py_slice_def Let_def take_map drop_map)

lemma char_builder_split:
  "sliding_window_split (char_builder t ov) text
     = (case sliding_windows t ov (length text) of
          None \<Rightarrow> None
        | Some ws \<Rightarrow> Some (Inr (map (\<lambda>(a, b). py_slice text a b) ws)))"
proof -
  have "map char_of (map (of_char :: char \<Rightarrow> nat) s) = s" for s
    by (induction s) simp_all
  then have "(\<lambda>(a, b). map char_of (py_slice (map (of_char :: char \<Rightarrow> nat) text) a b))
      = (\<lambda>(a, b). py_slice text a b)"
    by (simp add: py_slice_map)
  then show ?thesis
    by (simp add: sliding_window_split_def char_builder_def char_encoder_def default_config_def
        split: option.splits)
qed

text \<open>
  C8 as stated fails: a negative overlap is less than the target, and then the windows
  leave gaps. With target 2 and overlap -1 the token at index 2 is in no window.
\<close>

theorem sliding_window_negative_overlap_gap:
  "sliding_windows 2 (- 1) 5 = Some [(0, 2), (3, 5)]
   \<and> sliding_window_split (char_builder 2 (- 1)) ''abcde'' = Some (Inr [''ab'', ''de''])"
proof -
  have w: "sliding_windows 2 (- 1) 5 = Some [(0, 2), (3, 5)]"
    by (simp add: sliding_windows_def window_loop.simps)
  have "length ''abcde'' = 5" by simp
  then have "sliding_window_split (char_builder 2 (- 1)) ''abcde''
      = Some (Inr (map (\<lambda>(a, b). py_slice ''abcde'' a b) [(0, 2), (3, 5)]))"
    by (simp only: char_builder_split w option.case)
  then show ?thesis
    using w by (simp add: py_slice_def)
qed


theorem sliding_window_covers_witness:
  "(0::int) \<le> 1 \<and> (1::int) < 3
   \<and> sliding_windows 3 1 7 = Some [(0, 3), (2, 5), (4, 7)]
   \<and> (\<exists>w \<in> set [(0, 3), (2, 5), (4, 7 :: int)]. fst w \<le> (6::int) \<and> 6 < snd w)
   \<and> sliding_window_split (char_builder 3 1) ''abcdefg'' = Some (Inr [''abc'', ''cde'', ''efg''])"
proof -
  let ?self = "char_builder 3 1"
  let ?tokens = "map of_char ''abcdefg'' :: nat list"
  have cfg: "chunk_target (config ?self) = 3" "chunk_overlap (config ?self) = 1"
    by (simp_all add: char_builder_def)
  have h1: "0 \<le> chunk_overlap (config ?self)" by (simp add: cfg)
  have h2: "chunk_overlap (config ?self) < chunk_target (config ?self)" by (simp add: cfg)
  have h3: "encode (encoder ?self) ''abcdefg'' = Inr ?tokens"
    by (simp add: char_builder_def char_encoder_def)
  have w: "sliding_windows 3 1 7 = Some [(0, 3), (2, 5), (4, 7)]"
    by (simp add: sliding_windows_def window_loop.simps)
  from sliding_window_covers [OF h1 h2 h3]
  obtain ws where ws: "sliding_windows 3 1 (length ?tokens) = Some ws"
    and cover: "\<forall>k < length ?tokens. \<exists>w \<in> set ws. fst w \<le> int k \<and> int k < snd w"
    unfolding cfg by blast
  have len: "length ?tokens = 7" by simp
  from ws have "sliding_windows 3 1 7 = Some ws" unfolding len .
  with w have eq: "ws = [(0, 3), (2, 5), (4, 7)]" by simp
  have "(6::nat) < length ?tokens" by simp
  with cover have "\<exists>w \<in> set ws. fst w \<le> int 6 \<and> int 6 < snd w" by blast
  then have c: "\<exists>w \<in> set [(0, 3), (2, 5), (4, 7 :: int)]. fst w \<le> (6::int) \<and> 6 < snd w"
    unfolding eq by simp
  have "length ''abcdefg'' = 7" by simp
  then have "sliding_window_split ?self ''abcdefg''
      = Some (Inr (map (\<lambda>(a, b). py_slice ''abcdefg'' a b) [(0, 3), (2, 5), (4, 7)]))"
    by (simp only: char_builder_split w option.case)
  then have s: "sliding_window_split ?self ''abcdefg'' = Some (Inr [''abc'', ''cde'', ''efg''])"
    by (simp add: py_slice_def)
  from w c s show ?thesis by simp
qed

lemma sliding_window_split_terminates:
  assumes "chunk_overlap (config self) < chunk_target (config self)"
  shows "sliding_window_split self text \<noteq> None"
  using assms by (simp add: sliding_window_split_none_iff sliding_windows_none_iff)

lemma process_sections_terminates:
  assumes "\<And>sec. sliding_window_split self sec \<noteq> None"
  shows "process_sections self parent secs idx chunks \<noteq> None"
proof (induction secs arbitrary: idx chunks)
  case Nil
  show ?case by simp
next
  case (Cons sec rest)
  show ?case
  proof (cases "count_tokens self sec \<le> chunk_target (config self)")
    case True
    then show ?thesis using Cons.IH by (simp add: Let_def)
  next
    case False
    from assms [of sec] obtain r where r: "sliding_window_split self sec = Some r" by blast
    show ?thesis
    proof (cases r)
      case (Inl e)
      then show ?thesis using False r by (simp add: Let_def)
    next
      case (Inr subs)
      then show ?thesis using False r Cons.IH by (simp add: Let_def)
    qed
  qed
qed

lemma chunk_text_terminates:
  assumes "chunk_overlap (config self) < chunk_target (config self)"
  shows "chunk_text self text parent n \<noteq> None"
proof -
  have split: "\<And>sec. sliding_window_split self sec \<noteq> None"
    using assms by (rule sliding_window_split_terminates)
  have proc: "\<And>secs. process_sections self parent secs 0 [] \<noteq> None"
    using split by (rule process_sections_terminates)
  define pre where "pre = (if 10000 \<le> n \<and> n \<le> 100000
      then reduce_large_card self (normalize_text text) else Inr (normalize_text text, n))"
  have unfold: "chunk_text self text parent n =
      (case pre of
         Inl e \<Rightarrow> Some (Inl e)
       | Inr (normalized_text, n') \<Rightarrow>
           if n' \<le> chunk_target (config self) then
             Some (Inr [make_chunk self parent 0 normalized_text n'])
           else
             (case (if length (heading_sections normalized_text) \<le> 1
                    then sliding_window_split self normalized_text
                    else Some (Inr (heading_sections normalized_text))) of
                None \<Rightarrow> None
              | Some (Inl e) \<Rightarrow> Some (Inl e)
              | Some (Inr sections) \<Rightarrow> process_sections self parent sections 0 []))"
    by (simp only: chunk_text_def pre_def)
  show ?thesis
  proof (cases pre)
    case (Inl e)
    then show ?thesis by (simp add: unfold)
  next
    case (Inr p)
    obtain a b where p: "p = (a, b)" by (cases p)
    show ?thesis
    proof (cases "b \<le> chunk_target (config self)")
      case True
      then show ?thesis by (simp add: unfold Inr p)
    next
      case False
      define secs where "secs = (if length (heading_sections a) \<le> 1
          then sliding_window_split self a else Some (Inr (heading_sections a)))"
      have "secs \<noteq> None" using split [of a] by (simp add: secs_def)
      then obtain r where r: "secs = Some r" by blast
      have res: "chunk_text self text parent n =
          (case secs of None \<Rightarrow> None | Some (Inl e) \<Rightarrow> Some (Inl e)
           | Some (Inr sections) \<Rightarrow> process_sections self parent sections 0 [])"
        using False by (simp add: unfold Inr p secs_def)
      show ?thesis
      proof (cases r)
        case (Inl e)
        then show ?thesis by (simp add: res r)
      next
        case (Inr sections)
        then show ?thesis using proc [of sections] by (simp add: res r)
      qed
    qed
  qed
qed

lemma stuck_builder_split:
  assumes "chunk_target cfg \<le> chunk_overlap cfg"
  shows "sliding_window_split (stuck_builder cfg) text = None"
proof -
  have "sliding_windows (chunk_target cfg) (chunk_overlap cfg)
      (nat (max (chunk_target cfg) 0) + 1) = None"
    using assms by (simp add: sliding_windows_none_iff)
  then show ?thesis
    by (simp add: sliding_window_split_def stuck_builder_def)
qed

lemma normalize_text_x: "normalize_text ''x'' = ''x''"
  by (simp add: normalize_text_def split_lines_def rstrip_def isspace_def CR_def LF_def)

lemma heading_sections_x: "heading_sections ''x'' = [''x'']"
  by (simp add: heading_sections_def split_lines_def heading_step_def is_h2_h3_def LF_def)

lemma stuck_builder_chunk_text:
  assumes "chunk_target cfg \<le> chunk_overlap cfg"
  shows "chunk_text (stuck_builder cfg) ''x'' parent (max (chunk_target cfg + 1) 100001) = None"
proof -
  have cfg: "config (stuck_builder cfg) = cfg" by (simp add: stuck_builder_def)
  show ?thesis
    by (simp add: chunk_text_def normalize_text_x heading_sections_x cfg
        stuck_builder_split [OF assms])
qed


text \<open>
  C10. For a configuration, the sliding-window split ends on every text (whatever the
  tokenizer) exactly when the overlap is less than the target, and so does
  \<^const>\<open>chunk_text\<close>. The loop on \<open>k\<close> tokens does not end exactly when the overlap is at
  least the target and there are more tokens than the target (and at least one). The
  default configuration, target 900 and overlap 120, is one on which it ends.
\<close>

theorem sliding_window_terminates_iff:
  "((\<forall>enc sha text.
       sliding_window_split \<lparr>config = cfg, encoder = enc, sha256_hexdigest = sha\<rparr> text \<noteq> None)
     \<longleftrightarrow> chunk_overlap cfg < chunk_target cfg)
   \<and> ((\<forall>enc sha text parent n.
         chunk_text \<lparr>config = cfg, encoder = enc, sha256_hexdigest = sha\<rparr> text parent n \<noteq> None)
       \<longleftrightarrow> chunk_overlap cfg < chunk_target cfg)
   \<and> (sliding_windows t ov k = None \<longleftrightarrow> t \<le> ov \<and> t < int k \<and> 0 < k)
   \<and> chunk_overlap default_config < chunk_target default_config"
proof -
  have a: "(\<forall>enc sha text.
      sliding_window_split \<lparr>config = cfg, encoder = enc, sha256_hexdigest = sha\<rparr> text \<noteq> None)
      \<longleftrightarrow> chunk_overlap cfg < chunk_target cfg"
  proof
    assume all: "\<forall>enc sha text.
      sliding_window_split \<lparr>config = cfg, encoder = enc, sha256_hexdigest = sha\<rparr> text \<noteq> None"
    show "chunk_overlap cfg < chunk_target cfg"
    proof (rule ccontr)
      assume "\<not> chunk_overlap cfg < chunk_target cfg"
      then have "sliding_window_split (stuck_builder cfg) ''x'' = None"
        by (intro stuck_builder_split) simp
      moreover from all have "sliding_window_split (stuck_builder cfg) ''x'' \<noteq> None"
        unfolding stuck_builder_def by blast
      ultimately show False by simp
    qed
  next
    assume "chunk_overlap cfg < chunk_target cfg"
    then show "\<forall>enc sha text.
      sliding_window_split \<lparr>config = cfg, encoder = enc, sha256_hexdigest = sha\<rparr> text \<noteq> None"
      by (intro allI sliding_window_split_terminates) simp
  qed
  have b: "(\<forall>enc sha text parent n.
      chunk_text \<lparr>config = cfg, encoder = enc, sha256_hexdigest = sha\<rparr> text parent n \<noteq> None)
      \<longleftrightarrow> chunk_overlap cfg < chunk_target cfg"
  proof
    assume all: "\<forall>enc sha text parent n.
      chunk_text \<lparr>config = cfg, encoder = enc, sha256_hexdigest = sha\<rparr> text parent n \<noteq> None"
    show "chunk_overlap cfg < chunk_target cfg"
    proof (rule ccontr)
      assume "\<not> chunk_overlap cfg < chunk_target cfg"
      then have "chunk_text (stuck_builder cfg) ''x'' [] (max (chunk_target cfg + 1) 100001) = None"
        by (intro stuck_builder_chunk_text) simp
      moreover from all have
        "chunk_text (stuck_builder cfg) ''x'' [] (max (chunk_target cfg + 1) 100001) \<noteq> None"
        unfolding stuck_builder_def by blast
      ultimately show False by simp
    qed
  next
    assume "chunk_overlap cfg < chunk_target cfg"
    then show "\<forall>enc sha text parent n.
      chunk_text \<lparr>config = cfg, encoder = enc, sha256_hexdigest = sha\<rparr> text parent n \<noteq> None"
      by (intro allI chunk_text_terminates) simp
  qed
  have c: "sliding_windows t ov k = None \<longleftrightarrow> t \<le> ov \<and> t < int k \<and> 0 < k"
    by (rule sliding_windows_none_iff)
  have d: "chunk_overlap default_config < chunk_target default_config"
    by (simp add: default_config_def)
  from a b c d show ?thesis by blast
qed

theorem sliding_window_terminates_iff_witness:
  "sliding_window_split (char_builder 900 120) ''abc'' \<noteq> None
   \<and> chunk_text (char_builder 900 120) ''abc'' ''h'' 2000 \<noteq> None
   \<and> sliding_windows 5 5 6 = None
   \<and> sliding_windows 900 120 2000 \<noteq> None"
proof -
  let ?cfg = "default_config\<lparr>chunk_target := 900, chunk_overlap := 120\<rparr>"
  note inst = sliding_window_terminates_iff [of ?cfg 5 5 6]
  have lt: "chunk_overlap ?cfg < chunk_target ?cfg" by simp
  have self: "char_builder 900 120
      = \<lparr>config = ?cfg, encoder = char_encoder, sha256_hexdigest = id\<rparr>"
    by (simp add: char_builder_def)
  from inst lt have s: "sliding_window_split (char_builder 900 120) ''abc'' \<noteq> None"
    unfolding self by blast
  from inst lt have c: "chunk_text (char_builder 900 120) ''abc'' ''h'' 2000 \<noteq> None"
    unfolding self by blast
  from inst have n: "sliding_windows 5 5 6 = None" by simp
  from sliding_window_terminates_iff [of ?cfg 900 120 2000]
  have m: "sliding_windows 900 120 2000 \<noteq> None" by simp
  from s c n m show ?thesis by simp
qed


section \<open>Key-section extraction\<close>















lemma char_builder_count: "count_tokens (char_builder t ov) s = int (length s)"
  by (simp add: count_tokens_def char_builder_def char_encoder_def)







section \<open>Chunking\<close>

lemma chunk_view_make_chunk:
  "chunk_view (make_chunk self p idx t n) = (compute_hash self t, idx, t, n)"
  by (simp add: chunk_view_def make_chunk_def)

lemma sub_chunks_views:
  "map chunk_view (sub_chunks self p1 idx subs) = map chunk_view (sub_chunks self p2 idx subs)"
  by (simp add: sub_chunks_def chunk_view_make_chunk case_prod_beta comp_def)

lemma sub_chunks_length: "length (sub_chunks self p idx subs) = length subs"
  by (simp add: sub_chunks_def)

lemma sub_chunks_nth:
  "i < length subs \<Longrightarrow>
   sub_chunks self p idx subs ! i
     = make_chunk self p (idx + i) (subs ! i) (count_tokens self (subs ! i))"
  by (simp add: sub_chunks_def nth_enumerate_eq)

lemma sub_chunks_well_numbered:
  "map chunk_index (sub_chunks self p idx subs) = [idx..<idx + length subs]
   \<and> map chunk_hash (sub_chunks self p idx subs)
       = map (\<lambda>c. compute_hash self (chunk_content c)) (sub_chunks self p idx subs)
   \<and> map parent_card_hash (sub_chunks self p idx subs) = replicate (length subs) p"
proof (intro conjI)
  show "map chunk_index (sub_chunks self p idx subs) = [idx..<idx + length subs]"
    by (rule nth_equalityI) (simp_all add: sub_chunks_length sub_chunks_nth make_chunk_def)
  show "map chunk_hash (sub_chunks self p idx subs)
      = map (\<lambda>c. compute_hash self (chunk_content c)) (sub_chunks self p idx subs)"
    by (rule nth_equalityI) (simp_all add: sub_chunks_length sub_chunks_nth make_chunk_def)
  show "map parent_card_hash (sub_chunks self p idx subs) = replicate (length subs) p"
    by (rule nth_equalityI) (simp_all add: sub_chunks_length sub_chunks_nth make_chunk_def)
qed

lemma well_numbered_append:
  assumes "well_numbered self p cs"
    and "map chunk_index new = [length cs..<length cs + length new]"
    and "map chunk_hash new = map (\<lambda>c. compute_hash self (chunk_content c)) new"
    and "map parent_card_hash new = replicate (length new) p"
  shows "well_numbered self p (cs @ new)"
proof -
  from assms(1) have i: "map chunk_index cs = [0..<length cs]"
    and h: "map chunk_hash cs = map (\<lambda>c. compute_hash self (chunk_content c)) cs"
    and q: "map parent_card_hash cs = replicate (length cs) p"
    by (simp_all add: well_numbered_def)
  have "map chunk_index (cs @ new) = [0..<length cs] @ [length cs..<length cs + length new]"
    by (simp only: map_append i assms(2))
  also have "\<dots> = [0..<length cs + length new]"
    by (rule upt_add_eq_append [symmetric]) simp
  finally have i': "map chunk_index (cs @ new) = [0..<length (cs @ new)]"
    by (simp only: length_append)
  have h': "map chunk_hash (cs @ new)
      = map (\<lambda>c. compute_hash self (chunk_content c)) (cs @ new)"
    by (simp only: map_append h assms(3))
  have "map parent_card_hash (cs @ new) = replicate (length cs) p @ replicate (length new) p"
    by (simp only: map_append q assms(4))
  also have "\<dots> = replicate (length (cs @ new)) p"
    by (simp only: length_append replicate_add)
  finally have q': "map parent_card_hash (cs @ new) = replicate (length (cs @ new)) p" .
  show ?thesis
    unfolding well_numbered_def using i' h' q' by (intro conjI)
qed

lemma process_sections_views:
  assumes "map chunk_view cs1 = map chunk_view cs2"
  shows "views (process_sections self p1 secs idx cs1) = views (process_sections self p2 secs idx cs2)"
  using assms
proof (induction secs arbitrary: idx cs1 cs2)
  case Nil
  then show ?case by (simp add: views_def)
next
  case (Cons sec rest)
  show ?case
  proof (cases "count_tokens self sec \<le> chunk_target (config self)")
    case True
    have "map chunk_view (cs1 @ [make_chunk self p1 idx sec (count_tokens self sec)])
        = map chunk_view (cs2 @ [make_chunk self p2 idx sec (count_tokens self sec)])"
      using Cons.prems by (simp add: chunk_view_make_chunk)
    from Cons.IH [OF this] show ?thesis
      using True by (simp add: Let_def)
  next
    case False
    show ?thesis
    proof (cases "sliding_window_split self sec")
      case None
      then show ?thesis using False by (simp add: Let_def views_def)
    next
      case (Some r)
      show ?thesis
      proof (cases r)
        case (Inl e)
        then show ?thesis using False Some by (simp add: Let_def views_def)
      next
        case (Inr subs)
        have "map chunk_view (cs1 @ sub_chunks self p1 idx subs)
            = map chunk_view (cs2 @ sub_chunks self p2 idx subs)"
          using Cons.prems sub_chunks_views [of self p1 idx subs p2] by simp
        from Cons.IH [OF this] show ?thesis
          using False Some Inr by (simp add: Let_def)
      qed
    qed
  qed
qed

lemma process_sections_well_numbered:
  assumes "well_numbered self p cs"
    and "process_sections self p secs (length cs) cs = Some (Inr out)"
  shows "well_numbered self p out"
  using assms
proof (induction secs arbitrary: cs)
  case Nil
  then show ?case by simp
next
  case (Cons sec rest)
  show ?case
  proof (cases "count_tokens self sec \<le> chunk_target (config self)")
    case True
    let ?c = "make_chunk self p (length cs) sec (count_tokens self sec)"
    have wn: "well_numbered self p (cs @ [?c])"
      using Cons.prems(1) by (rule well_numbered_append) (simp_all add: make_chunk_def)
    have "process_sections self p rest (length (cs @ [?c])) (cs @ [?c]) = Some (Inr out)"
      using Cons.prems(2) True by (simp add: Let_def)
    with wn show ?thesis by (rule Cons.IH)
  next
    case False
    show ?thesis
    proof (cases "sliding_window_split self sec")
      case None
      then show ?thesis using False Cons.prems(2) by (simp add: Let_def)
    next
      case (Some r)
      show ?thesis
      proof (cases r)
        case (Inl e)
        then show ?thesis using False Some Cons.prems(2) by (simp add: Let_def)
      next
        case (Inr subs)
        let ?new = "sub_chunks self p (length cs) subs"
        have wn: "well_numbered self p (cs @ ?new)"
          using Cons.prems(1) sub_chunks_well_numbered [of self p "length cs" subs]
          by (intro well_numbered_append) (simp_all add: sub_chunks_length)
        have "process_sections self p rest (length (cs @ ?new)) (cs @ ?new) = Some (Inr out)"
          using Cons.prems(2) False Some Inr by (simp add: Let_def sub_chunks_length)
        with wn show ?thesis by (rule Cons.IH)
      qed
    qed
  qed
qed


lemma chunk_text_unfold:
  "chunk_text self text parent n =
     (case (if 10000 \<le> n \<and> n \<le> 100000
            then reduce_large_card self (normalize_text text)
            else Inr (normalize_text text, n)) of
        Inl e \<Rightarrow> Some (Inl e)
      | Inr p \<Rightarrow>
          if snd p \<le> chunk_target (config self) then
            Some (Inr [make_chunk self parent 0 (fst p) (snd p)])
          else
            (case (if length (heading_sections (fst p)) \<le> 1
                   then sliding_window_split self (fst p)
                   else Some (Inr (heading_sections (fst p)))) of
               None \<Rightarrow> None
             | Some (Inl e) \<Rightarrow> Some (Inl e)
             | Some (Inr sections) \<Rightarrow> process_sections self parent sections 0 []))"
  by (simp add: chunk_text_def case_prod_beta split: sum.splits)

lemma chunk_text_views:
  "views (chunk_text self text p1 n) = views (chunk_text self text p2 n)"
proof -
  define pre where "pre = (if 10000 \<le> n \<and> n \<le> 100000
      then reduce_large_card self (normalize_text text) else Inr (normalize_text text, n))"
  show ?thesis
  proof (cases pre)
    case (Inl e)
    then show ?thesis by (simp add: chunk_text_unfold pre_def [symmetric])
  next
    case (Inr p)
    show ?thesis
    proof (cases "snd p \<le> chunk_target (config self)")
      case True
      then show ?thesis
        by (simp add: chunk_text_unfold pre_def [symmetric] Inr views_def chunk_view_make_chunk)
    next
      case False
      define secs where "secs = (if length (heading_sections (fst p)) \<le> 1
          then sliding_window_split self (fst p) else Some (Inr (heading_sections (fst p))))"
      have res: "chunk_text self text q n =
          (case secs of None \<Rightarrow> None | Some (Inl e) \<Rightarrow> Some (Inl e)
           | Some (Inr sections) \<Rightarrow> process_sections self q sections 0 [])" for q
        using False by (simp add: chunk_text_unfold pre_def [symmetric] Inr secs_def)
      show ?thesis
      proof (cases secs)
        case None
        then show ?thesis by (simp add: res views_def)
      next
        case (Some r)
        show ?thesis
        proof (cases r)
          case (Inl e)
          then show ?thesis by (simp add: res Some views_def)
        next
          case (Inr sections)
          have "views (process_sections self p1 sections 0 [])
              = views (process_sections self p2 sections 0 [])"
            by (rule process_sections_views) simp
          then show ?thesis by (simp add: res Some Inr)
        qed
      qed
    qed
  qed
qed

lemma well_numbered_Nil: "well_numbered self p []"
  by (simp add: well_numbered_def)

lemma chunk_text_well_numbered:
  assumes "chunk_text self text parent n = Some (Inr chunks)"
  shows "well_numbered self parent chunks"
proof -
  define pre where "pre = (if 10000 \<le> n \<and> n \<le> 100000
      then reduce_large_card self (normalize_text text) else Inr (normalize_text text, n))"
  show ?thesis
  proof (cases pre)
    case (Inl e)
    with assms show ?thesis by (simp add: chunk_text_unfold pre_def [symmetric])
  next
    case (Inr p)
    show ?thesis
    proof (cases "snd p \<le> chunk_target (config self)")
      case True
      with assms have "chunks = [make_chunk self parent 0 (fst p) (snd p)]"
        by (simp add: chunk_text_unfold pre_def [symmetric] Inr)
      then show ?thesis by (simp add: well_numbered_def make_chunk_def)
    next
      case False
      define secs where "secs = (if length (heading_sections (fst p)) \<le> 1
          then sliding_window_split self (fst p) else Some (Inr (heading_sections (fst p))))"
      have res: "chunk_text self text parent n =
          (case secs of None \<Rightarrow> None | Some (Inl e) \<Rightarrow> Some (Inl e)
           | Some (Inr sections) \<Rightarrow> process_sections self parent sections 0 [])"
        using False by (simp add: chunk_text_unfold pre_def [symmetric] Inr secs_def)
      show ?thesis
      proof (cases secs)
        case None
        with assms show ?thesis by (simp add: res)
      next
        case (Some r)
        show ?thesis
        proof (cases r)
          case (Inl e)
          with assms show ?thesis by (simp add: res Some)
        next
          case (Inr sections)
          with assms have "process_sections self parent sections (length []) [] = Some (Inr chunks)"
            by (simp add: res Some)
          with well_numbered_Nil show ?thesis by (rule process_sections_well_numbered)
        qed
      qed
    qed
  qed
qed

lemma views_Inr:
  assumes "views r2 = views r1" and "r1 = Some (Inr cs1)"
  shows "\<exists>cs2. r2 = Some (Inr cs2) \<and> map chunk_view cs2 = map chunk_view cs1"
proof -
  from assms have v: "views r2 = Some (Inr (map chunk_view cs1))" by (simp add: views_def)
  then obtain x where x: "r2 = Some x" by (cases r2) (simp_all add: views_def)
  with v have "map_sum id (map chunk_view) x = Inr (map chunk_view cs1)" by (simp add: views_def)
  then obtain cs2 where "x = Inr cs2" "map chunk_view cs2 = map chunk_view cs1"
    by (cases x) simp_all
  with x show ?thesis by simp
qed

lemma chunk_view_fields:
  assumes "map chunk_view cs2 = map chunk_view cs1"
  shows "length cs2 = length cs1"
    and "map chunk_content cs2 = map chunk_content cs1"
    and "map chunk_index cs2 = map chunk_index cs1"
    and "map chunk_hash cs2 = map chunk_hash cs1"
    and "map chunk_token_count cs2 = map chunk_token_count cs1"
proof -
  show "length cs2 = length cs1" using assms by (rule map_eq_imp_length_eq)
  have "map (fst \<circ> snd \<circ> snd) (map chunk_view cs2) = map (fst \<circ> snd \<circ> snd) (map chunk_view cs1)"
    by (simp only: assms)
  then show "map chunk_content cs2 = map chunk_content cs1"
    by (simp add: chunk_view_def comp_def)
  have "map (fst \<circ> snd) (map chunk_view cs2) = map (fst \<circ> snd) (map chunk_view cs1)"
    by (simp only: assms)
  then show "map chunk_index cs2 = map chunk_index cs1"
    by (simp add: chunk_view_def comp_def)
  have "map fst (map chunk_view cs2) = map fst (map chunk_view cs1)"
    by (simp only: assms)
  then show "map chunk_hash cs2 = map chunk_hash cs1"
    by (simp add: chunk_view_def comp_def)
  have "map (snd \<circ> snd \<circ> snd) (map chunk_view cs2) = map (snd \<circ> snd \<circ> snd) (map chunk_view cs1)"
    by (simp only: assms)
  then show "map chunk_token_count cs2 = map chunk_token_count cs1"
    by (simp add: chunk_view_def comp_def)
qed


text \<open>
  C1. \<^const>\<open>chunk_text\<close> is a function of the builder (configuration, tokenizer, hash), the
  text and the token count it is given: a second run on the same text gives the same
  outcome (no return, the same error, or a chunk list), and the hash of the card, which is
  only copied into the chunks, changes nothing else. When the first run returns chunks,
  the second returns as many, with the same texts, indices, hashes and token counts, in
  the same order; the indices are 0, 1, ..., and each chunk's hash is the hash of its own
  text.
\<close>

theorem chunk_text_deterministic:
  "views (chunk_text self text parent1 n) = views (chunk_text self text parent2 n)
   \<and> (chunk_text self text parent1 n = Some (Inr chunks1) \<longrightarrow>
        (\<exists>chunks2. chunk_text self text parent2 n = Some (Inr chunks2)
           \<and> length chunks2 = length chunks1
           \<and> map chunk_content chunks2 = map chunk_content chunks1
           \<and> map chunk_index chunks2 = map chunk_index chunks1
           \<and> map chunk_hash chunks2 = map chunk_hash chunks1
           \<and> map chunk_token_count chunks2 = map chunk_token_count chunks1)
        \<and> map chunk_index chunks1 = [0..<length chunks1]
        \<and> map chunk_hash chunks1 = map (\<lambda>c. compute_hash self (chunk_content c)) chunks1
        \<and> map parent_card_hash chunks1 = replicate (length chunks1) parent1)"
proof (intro conjI impI)
  show v: "views (chunk_text self text parent1 n) = views (chunk_text self text parent2 n)"
    by (rule chunk_text_views)
  assume r1: "chunk_text self text parent1 n = Some (Inr chunks1)"
  from views_Inr [OF v [symmetric] r1]
  obtain chunks2 where r2: "chunk_text self text parent2 n = Some (Inr chunks2)"
    and eq: "map chunk_view chunks2 = map chunk_view chunks1"
    by blast
  from r2 chunk_view_fields [OF eq]
  show "\<exists>chunks2. chunk_text self text parent2 n = Some (Inr chunks2)
      \<and> length chunks2 = length chunks1
      \<and> map chunk_content chunks2 = map chunk_content chunks1
      \<and> map chunk_index chunks2 = map chunk_index chunks1
      \<and> map chunk_hash chunks2 = map chunk_hash chunks1
      \<and> map chunk_token_count chunks2 = map chunk_token_count chunks1"
    by (intro exI [of _ chunks2] conjI)
  from r1 have wn: "well_numbered self parent1 chunks1"
    by (rule chunk_text_well_numbered)
  from wn show "map chunk_index chunks1 = [0..<length chunks1]"
    by (simp add: well_numbered_def)
  from wn show "map chunk_hash chunks1 = map (\<lambda>c. compute_hash self (chunk_content c)) chunks1"
    by (simp add: well_numbered_def)
  from wn show "map parent_card_hash chunks1 = replicate (length chunks1) parent1"
    by (simp add: well_numbered_def)
qed

lemma normalize_text_example: "normalize_text ''abcdefg'' = ''abcdefg''"
  by (simp add: normalize_text_def split_lines_def rstrip_def isspace_def CR_def LF_def)

lemma heading_sections_example: "heading_sections ''abcdefg'' = [''abcdefg'']"
  by (simp add: heading_sections_def split_lines_def heading_step_def is_h2_h3_def LF_def)

lemma sliding_window_split_example:
  "sliding_window_split (char_builder 3 1) ''abcdefg'' = Some (Inr [''abc'', ''cde'', ''efg''])"
proof -
  have w: "sliding_windows 3 1 7 = Some [(0, 3), (2, 5), (4, 7)]"
    by (simp add: sliding_windows_def window_loop.simps)
  have "length ''abcdefg'' = 7" by simp
  then have "sliding_window_split (char_builder 3 1) ''abcdefg''
      = Some (Inr (map (\<lambda>(a, b). py_slice ''abcdefg'' a b) [(0, 3), (2, 5), (4, 7)]))"
    by (simp only: char_builder_split w option.case)
  then show ?thesis by (simp add: py_slice_def)
qed

lemma chunk_text_example:
  "chunk_text (char_builder 3 1) ''abcdefg'' p 7
     = Some (Inr [make_chunk (char_builder 3 1) p 0 ''abc'' 3,
                  make_chunk (char_builder 3 1) p 1 ''cde'' 3,
                  make_chunk (char_builder 3 1) p 2 ''efg'' 3])"
proof -
  have cfg: "chunk_target (config (char_builder 3 1)) = 3"
    by (simp add: char_builder_def)
  have "process_sections (char_builder 3 1) p [''abc'', ''cde'', ''efg''] 0 []
      = Some (Inr [make_chunk (char_builder 3 1) p 0 ''abc'' 3,
                   make_chunk (char_builder 3 1) p 1 ''cde'' 3,
                   make_chunk (char_builder 3 1) p 2 ''efg'' 3])"
    by (simp add: cfg char_builder_count numeral_2_eq_2)
  then show ?thesis
    by (simp add: chunk_text_unfold normalize_text_example heading_sections_example cfg
        sliding_window_split_example)
qed

theorem chunk_text_deterministic_witness:
  "chunk_text (char_builder 3 1) ''abcdefg'' ''h1'' 7
     = Some (Inr [make_chunk (char_builder 3 1) ''h1'' 0 ''abc'' 3,
                  make_chunk (char_builder 3 1) ''h1'' 1 ''cde'' 3,
                  make_chunk (char_builder 3 1) ''h1'' 2 ''efg'' 3])
   \<and> (\<exists>chunks2. chunk_text (char_builder 3 1) ''abcdefg'' ''h2'' 7 = Some (Inr chunks2)
         \<and> map chunk_content chunks2 = [''abc'', ''cde'', ''efg'']
         \<and> map chunk_index chunks2 = [0, 1, 2]
         \<and> map chunk_hash chunks2 = [''abc'', ''cde'', ''efg''])"
proof -
  let ?self = "char_builder 3 1"
  let ?cs = "[make_chunk ?self ''h1'' 0 ''abc'' 3, make_chunk ?self ''h1'' 1 ''cde'' 3,
              make_chunk ?self ''h1'' 2 ''efg'' 3]"
  have r1: "chunk_text ?self ''abcdefg'' ''h1'' 7 = Some (Inr ?cs)"
    by (rule chunk_text_example)
  have sha: "compute_hash ?self = id"
    by (rule ext) (simp add: compute_hash_def char_builder_def)
  from chunk_text_deterministic [of ?self "''abcdefg''" "''h1''" 7 "''h2''" ?cs] r1
  obtain chunks2 where r2: "chunk_text ?self ''abcdefg'' ''h2'' 7 = Some (Inr chunks2)"
    and c: "map chunk_content chunks2 = map chunk_content ?cs"
    and i: "map chunk_index chunks2 = map chunk_index ?cs"
    and h: "map chunk_hash chunks2 = map chunk_hash ?cs"
    by blast
  have "map chunk_content ?cs = [''abc'', ''cde'', ''efg'']"
    and "map chunk_index ?cs = [0, 1, 2]"
    and "map chunk_hash ?cs = [''abc'', ''cde'', ''efg'']"
    by (simp_all add: make_chunk_def sha)
  with c i h r2 r1 show ?thesis by simp
qed


section \<open>Model search with no matching chunk\<close>

text \<open>
  C9, as amended. When the query embedding is obtained and the chunk search returns no
  rows, \<^const>\<open>search_hf_models\<close> returns a result, not an error: its result list is
  empty, and its metadata has \<open>total_found = 0\<close>, the query as given, and the \<open>top_k\<close> in
  effect, which is the requested one when one was given and is not 0, and the configured
  default when none was given or the requested one is 0.
\<close>

theorem search_hf_models_no_chunks:
  assumes "get_query_embedding env q = Inr query_embedding"
    and "chunk_search env query_embedding (hf_embedding_model_name (env_settings env))
           (hf_chunker_version (env_settings env)) (hf_chunk_top_k (env_settings env)) = Inr []"
  shows "\<exists>r. search_hf_models env q tag license_filter k = Inr r
     \<and> sr_results r = []
     \<and> md_total_found (sr_metadata r) = 0
     \<and> md_top_k (sr_metadata r) = top_k_or_default (env_settings env) k
     \<and> (\<forall>v. k = Some v \<and> v \<noteq> 0 \<longrightarrow> md_top_k (sr_metadata r) = v)
     \<and> (k = None \<or> k = Some 0 \<longrightarrow> md_top_k (sr_metadata r) = hf_top_k (env_settings env))
     \<and> md_query (sr_metadata r) = q
     \<and> md_embedding_model (sr_metadata r) = hf_embedding_model_name (env_settings env)"
proof -
  let ?s = "env_settings env"
  let ?r = "\<lparr>sr_results = [],
             sr_metadata = \<lparr>md_total_found = 0, md_top_k = top_k_or_default ?s k, md_query = q,
                             md_embedding_model = hf_embedding_model_name ?s,
                             md_chunker_version = None, md_filters = None\<rparr>\<rparr>"
  have ret: "search_hf_models env q tag license_filter k = Inr ?r"
    using assms by (simp add: search_hf_models_def Let_def)
  have given: "\<forall>v. k = Some v \<and> v \<noteq> 0 \<longrightarrow> top_k_or_default ?s k = v"
    by (simp add: top_k_or_default_def)
  have default: "k = None \<or> k = Some 0 \<longrightarrow> top_k_or_default ?s k = hf_top_k ?s"
    by (auto simp add: top_k_or_default_def)
  show ?thesis
    using ret given default by (intro exI [of _ ?r]) simp
qed

theorem search_hf_models_no_chunks_witness:
  "get_query_embedding empty_env ''llama'' = Inr [0.25, 0.5]
   \<and> (\<exists>r. search_hf_models empty_env ''llama'' None None (Some 3) = Inr r
         \<and> sr_results r = []
         \<and> md_total_found (sr_metadata r) = 0
         \<and> md_top_k (sr_metadata r) = 3
         \<and> md_query (sr_metadata r) = ''llama'')"
proof -
  have h1: "get_query_embedding empty_env ''llama'' = Inr [0.25, 0.5]"
    by (simp add: empty_env_def)
  have h2: "chunk_search empty_env [0.25, 0.5] (hf_embedding_model_name (env_settings empty_env))
      (hf_chunker_version (env_settings empty_env)) (hf_chunk_top_k (env_settings empty_env)) = Inr []"
    by (simp add: empty_env_def)
  from search_hf_models_no_chunks [OF h1 h2, of None None "Some 3"]
  obtain r where r: "search_hf_models empty_env ''llama'' None None (Some 3) = Inr r"
    and res: "sr_results r = []" and tf: "md_total_found (sr_metadata r) = 0"
    and tk: "md_top_k (sr_metadata r) = top_k_or_default (env_settings empty_env) (Some 3)"
    and qq: "md_query (sr_metadata r) = ''llama''"
    by blast
  from tk have "md_top_k (sr_metadata r) = 3"
    by (simp add: top_k_or_default_def)
  with h1 r res tf qq show ?thesis by blast
qed

text \<open>
  C9 as stated fails: the request schema puts no lower bound on \<open>top_k\<close>, and for a
  requested \<open>top_k\<close> of 0 the metadata reports 5, the configured default, because
  \<^verbatim>\<open>0 or settings.hf_top_k\<close> is \<^verbatim>\<open>settings.hf_top_k\<close>.
\<close>

theorem search_hf_models_zero_top_k:
  "search_hf_models empty_env ''llama'' None None (Some 0)
     = Inr \<lparr>sr_results = [],
            sr_metadata = \<lparr>md_total_found = 0, md_top_k = 5, md_query = ''llama'',
                           md_embedding_model = ''text-embedding-3-small'',
                           md_chunker_version = None, md_filters = None\<rparr>\<rparr>"
  by (simp add: search_hf_models_def empty_env_def default_settings_def top_k_or_default_def)

end
